theory Spec2Isabelle
  imports Complex_Main
begin

section \<open>The DST-aware offset resolver (scripts/convert\_to\_pst\_json.py)\<close>

text \<open>
  A naive \<^verbatim>\<open>datetime\<close> value: the seven fields Python stores. Python compares two
  naive datetimes field by field, from the year down to the microsecond.
\<close>

record datetime =
  year :: nat
  month :: nat
  day :: nat
  hour :: nat
  minute :: nat
  second :: nat
  microsecond :: nat

definition dt_fields :: "datetime \<Rightarrow> nat list" where
  "dt_fields dt = [year dt, month dt, day dt, hour dt, minute dt, second dt, microsecond dt]"

fun lex_lt :: "nat list \<Rightarrow> nat list \<Rightarrow> bool" where
  "lex_lt (x # xs) (y # ys) = (if x = y then lex_lt xs ys else x < y)"
| "lex_lt [] (y # ys) = True"
| "lex_lt xs [] = False"

definition dt_lt :: "datetime \<Rightarrow> datetime \<Rightarrow> bool" where
  "dt_lt a b = lex_lt (dt_fields a) (dt_fields b)"

definition dt_le :: "datetime \<Rightarrow> datetime \<Rightarrow> bool" where
  "dt_le a b = (dt_fields a = dt_fields b \<or> dt_lt a b)"

definition mk_datetime :: "nat \<Rightarrow> nat \<Rightarrow> nat \<Rightarrow> nat \<Rightarrow> nat \<Rightarrow> datetime" where
  "mk_datetime y mo d h mi =
     \<lparr>year = y, month = mo, day = d, hour = h, minute = mi, second = 0, microsecond = 0\<rparr>"

definition DST_START_2026 :: datetime where
  "DST_START_2026 = mk_datetime 2026 3 8 2 0"

definition DST_END_2026 :: datetime where
  "DST_END_2026 = mk_datetime 2026 11 1 2 0"

definition get_pst_offset :: "datetime \<Rightarrow> string" where
  "get_pst_offset dt_obj =
     (if dt_le DST_START_2026 dt_obj \<and> dt_lt dt_obj DST_END_2026 then ''-07:00'' else ''-08:00'')"

section \<open>JSON values and the Python operations the scripts apply to them\<close>

text \<open>
  What \<^verbatim>\<open>json.load\<close> returns: \<^verbatim>\<open>None\<close>, a bool, an int, a float, a str, a list or
  a dict with string keys. A dict keeps its keys in insertion order, so it is an
  association list; a lookup reads the first pair with the key and an assignment
  overwrites that pair in place or appends a new one. Strings are lists of characters.
\<close>

datatype json =
    JNull
  | JBool bool
  | JInt int
  | JFloat real
  | JStr string
  | JArr "json list"
  | JObj "(string \<times> json) list"

datatype error = KeyError | TypeError | AttributeError | ValueError

text \<open>Sequencing of steps that may raise: the first exception ends the computation.\<close>

definition ebind :: "error + 'a \<Rightarrow> ('a \<Rightarrow> error + 'b) \<Rightarrow> error + 'b" where
  "ebind m f = (case m of Inl e \<Rightarrow> Inl e | Inr x \<Rightarrow> f x)"

primrec dict_set :: "(string \<times> json) list \<Rightarrow> string \<Rightarrow> json \<Rightarrow> (string \<times> json) list" where
  "dict_set [] k v = [(k, v)]"
| "dict_set (p # ps) k v = (if fst p = k then (k, v) # ps else p # dict_set ps k v)"

text \<open>\<^verbatim>\<open>x.get(k, default)\<close>: only a dict has the method.\<close>

fun py_get :: "json \<Rightarrow> string \<Rightarrow> json \<Rightarrow> error + json" where
  "py_get (JObj kvs) k dflt = Inr (case map_of kvs k of None \<Rightarrow> dflt | Some v \<Rightarrow> v)"
| "py_get x k dflt = Inl AttributeError"

text \<open>\<^verbatim>\<open>x[k]\<close> for a string \<open>k\<close>: a missing key of a dict is a KeyError; a list, a
  string, a number, a bool and \<^verbatim>\<open>None\<close> give a TypeError.\<close>

fun py_getitem :: "json \<Rightarrow> string \<Rightarrow> error + json" where
  "py_getitem (JObj kvs) k = (case map_of kvs k of None \<Rightarrow> Inl KeyError | Some v \<Rightarrow> Inr v)"
| "py_getitem x k = Inl TypeError"

text \<open>\<^verbatim>\<open>x[k] = v\<close> for a string \<open>k\<close>: only a dict accepts it.\<close>

fun py_setitem :: "json \<Rightarrow> string \<Rightarrow> json \<Rightarrow> error + json" where
  "py_setitem (JObj kvs) k v = Inr (JObj (dict_set kvs k v))"
| "py_setitem x k v = Inl TypeError"

text \<open>\<^verbatim>\<open>for item in x\<close>: a list gives its elements, a dict its keys, a string its
  characters; anything else is not iterable.\<close>

fun py_iter :: "json \<Rightarrow> error + json list" where
  "py_iter (JArr xs) = Inr xs"
| "py_iter (JObj kvs) = Inr (map (\<lambda>p. JStr (fst p)) kvs)"
| "py_iter (JStr s) = Inr (map (\<lambda>c. JStr [c]) s)"
| "py_iter x = Inl TypeError"

text \<open>\<^verbatim>\<open>x.startswith(p)\<close>: only a string has the method.\<close>

fun py_startswith :: "json \<Rightarrow> string \<Rightarrow> error + bool" where
  "py_startswith (JStr s) p = Inr (take (length p) s = p)"
| "py_startswith x p = Inl AttributeError"

text \<open>\<^verbatim>\<open>x in d\<close> and \<^verbatim>\<open>d[x]\<close> for a dict \<open>d\<close> with string keys: a list or a dict is
  unhashable (TypeError); a number, a bool or \<^verbatim>\<open>None\<close> equals no string key.\<close>

fun dict_contains :: "(string \<times> json) list \<Rightarrow> json \<Rightarrow> error + bool" where
  "dict_contains d (JStr k) = Inr (map_of d k \<noteq> None)"
| "dict_contains d (JArr xs) = Inl TypeError"
| "dict_contains d (JObj kvs) = Inl TypeError"
| "dict_contains d x = Inr False"

fun dict_getitem :: "(string \<times> json) list \<Rightarrow> json \<Rightarrow> error + json" where
  "dict_getitem d (JStr k) = (case map_of d k of None \<Rightarrow> Inl KeyError | Some v \<Rightarrow> Inr v)"
| "dict_getitem d (JArr xs) = Inl TypeError"
| "dict_getitem d (JObj kvs) = Inl TypeError"
| "dict_getitem d x = Inl KeyError"

section \<open>The dataset corrector (tool/fix\_ekadashi\_data.py)\<close>

text \<open>The lines the script prints, with the values each line formats.\<close>

datatype log_line =
    Corrected json json
  | Kept json json
  | Removed json json
  | Total_retained nat
  | Done

definition correction :: "string \<Rightarrow> string \<Rightarrow> string \<Rightarrow> string \<Rightarrow> json" where
  "correction d fs ps pe =
     JObj [(''date'', JStr d), (''fasting_start'', JStr fs),
           (''parana_start'', JStr ps), (''parana_end'', JStr pe)]"

definition ist_corrections :: "(string \<times> json) list" where
  "ist_corrections =
    [(''Mohini Ekadashi'', correction ''2026-04-27'' ''2026-04-27T05:36:00+05:30''
        ''2026-04-28T05:35:00+05:30'' ''2026-04-28T09:47:00+05:30''),
     (''Apara Ekadashi'', correction ''2026-05-13'' ''2026-05-13T05:26:00+05:30''
        ''2026-05-14T05:25:00+05:30'' ''2026-05-14T09:39:00+05:30''),
     (''Prabodhini Ekadashi'', correction ''2026-10-22'' ''2026-10-22T06:19:00+05:30''
        ''2026-10-23T06:20:00+05:30'' ''2026-10-23T10:29:00+05:30''),
     (''Utpanna Ekadashi'', correction ''2026-11-05'' ''2026-11-05T06:26:00+05:30''
        ''2026-11-06T06:27:00+05:30'' ''2026-11-06T10:35:00+05:30''),
     (''Saphala Ekadashi'', correction ''2026-12-04'' ''2026-12-04T06:44:00+05:30''
        ''2026-12-05T06:45:00+05:30'' ''2026-12-05T10:49:00+05:30''),
     (''Pausha Putrada Ekadashi'', correction ''2026-12-20'' ''2026-12-20T06:54:00+05:30''
        ''2026-12-21T06:55:00+05:30'' ''2026-12-21T10:57:00+05:30'')]"

text \<open>
  \<^verbatim>\<open>ekadashi.get('name', {}).get('en', '')\<close>, evaluated in both branches of the loop body.
\<close>

definition name_en :: "json \<Rightarrow> error + json" where
  "name_en ekadashi = ebind (py_get ekadashi ''name'' (JObj [])) (\<lambda>n. py_get n ''en'' (JStr []))"

text \<open>
  \<^verbatim>\<open>ekadashi['timing']['IST'] = correction\<close>: the timing dict is changed in place, so the
  entry holds the changed dict under the same key.
\<close>

definition set_ist :: "json \<Rightarrow> json \<Rightarrow> error + json" where
  "set_ist ekadashi c =
     ebind (py_getitem ekadashi ''timing'') (\<lambda>timing.
     ebind (py_setitem timing ''IST'' c) (\<lambda>timing'.
     py_setitem ekadashi ''timing'' timing'))"

text \<open>
  One pass of the loop body over an entry, for a correction table \<open>tbl\<close>: the entry to
  append to \<^verbatim>\<open>filtered_ekadashis\<close> (if it is kept) and the lines printed, or the exception
  raised. No line is printed before an exception of the same pass.
\<close>

definition process_entry ::
  "(string \<times> json) list \<Rightarrow> json \<Rightarrow> error + (json option \<times> log_line list)" where
  "process_entry tbl ekadashi =
     ebind (py_get ekadashi ''timing'' (JObj [])) (\<lambda>timing.
     ebind (py_get timing ''IST'' (JObj [])) (\<lambda>ist_timing.
     ebind (py_get ist_timing ''date'' (JStr [])) (\<lambda>date_str.
     ebind (py_startswith date_str ''2026'') (\<lambda>is_2026.
       if is_2026 then
         ebind (name_en ekadashi) (\<lambda>ekadashi_name.
         ebind (dict_contains tbl ekadashi_name) (\<lambda>needs.
           if needs then
             ebind (dict_getitem tbl ekadashi_name) (\<lambda>c.
             ebind (set_ist ekadashi c) (\<lambda>ekadashi'.
             ebind (py_getitem c ''date'') (\<lambda>d.
               Inr (Some ekadashi',
                    [Corrected ekadashi_name d, Kept ekadashi_name date_str]))))
           else Inr (Some ekadashi, [Kept ekadashi_name date_str])))
       else
         ebind (name_en ekadashi) (\<lambda>ekadashi_name.
           Inr (None, [Removed ekadashi_name date_str]))))))"

text \<open>
  The loop over \<^verbatim>\<open>data['ekadashis']\<close>: \<open>acc\<close> is \<^verbatim>\<open>filtered_ekadashis\<close> and \<open>out\<close> the
  lines printed so far, which stay printed when a later entry raises.
\<close>

fun filter_loop ::
  "(string \<times> json) list \<Rightarrow> json list \<Rightarrow> json list \<Rightarrow> log_line list
     \<Rightarrow> log_line list \<times> (error + json list)" where
  "filter_loop tbl [] acc out = (out, Inr acc)"
| "filter_loop tbl (e # es) acc out =
     (case process_entry tbl e of
        Inl err \<Rightarrow> (out, Inl err)
      | Inr (None, ls) \<Rightarrow> filter_loop tbl es acc (out @ ls)
      | Inr (Some e', ls) \<Rightarrow> filter_loop tbl es (acc @ [e']) (out @ ls))"

text \<open>\<^verbatim>\<open>for i, ekadashi in enumerate(..., 1): ekadashi['id'] = i\<close>, counting from \<open>i\<close>.\<close>

fun renumber :: "nat \<Rightarrow> json list \<Rightarrow> error + json list" where
  "renumber i [] = Inr []"
| "renumber i (e # es) =
     ebind (py_setitem e ''id'' (JInt (int i))) (\<lambda>e'.
     ebind (renumber (Suc i) es) (\<lambda>es'. Inr (e' # es')))"

text \<open>\<^verbatim>\<open>data['timezones']['IST']['cities'] = ['India']\<close>, again an update in place.\<close>

definition set_cities :: "json \<Rightarrow> error + json" where
  "set_cities data =
     ebind (py_getitem data ''timezones'') (\<lambda>tzs.
     ebind (py_getitem tzs ''IST'') (\<lambda>ist.
     ebind (py_setitem ist ''cities'' (JArr [JStr ''India''])) (\<lambda>ist'.
     ebind (py_setitem tzs ''IST'' ist') (\<lambda>tzs'.
     py_setitem data ''timezones'' tzs'))))"

definition date_range_2026 :: json where
  "date_range_2026 = JObj [(''start'', JStr ''2026-01-01''), (''end'', JStr ''2026-12-31'')]"

text \<open>
  The steps before the loop: the metadata rewrites and the read of the list to filter.
\<close>

definition prepare :: "json \<Rightarrow> error + (json \<times> json list)" where
  "prepare data =
     ebind (py_setitem data ''date_range'' date_range_2026) (\<lambda>data1.
     ebind (set_cities data1) (\<lambda>data2.
     ebind (py_getitem data2 ''ekadashis'') (\<lambda>eks.
     ebind (py_iter eks) (\<lambda>entries. Inr (data2, entries)))))"

text \<open>
  The steps after the loop. The script stores the filtered list and then renumbers its
  entries in place; the document therefore ends with the renumbered entries.
\<close>

definition finish :: "json \<Rightarrow> json list \<Rightarrow> error + json" where
  "finish data2 filtered =
     ebind (py_setitem data2 ''ekadashis'' (JArr filtered)) (\<lambda>data3.
     ebind (renumber 1 filtered) (\<lambda>numbered.
     py_setitem data3 ''ekadashis'' (JArr numbered)))"

text \<open>
  The whole script on the loaded document, for a correction table: the lines printed and
  either the exception that ended the run (nothing is written) or the document written.
\<close>

definition fix_ekadashi_data_with ::
  "(string \<times> json) list \<Rightarrow> json \<Rightarrow> log_line list \<times> (error + json)" where
  "fix_ekadashi_data_with tbl data =
     (case prepare data of
        Inl err \<Rightarrow> ([], Inl err)
      | Inr (data2, entries) \<Rightarrow>
          (case filter_loop tbl entries [] [] of
             (out, Inl err) \<Rightarrow> (out, Inl err)
           | (out, Inr filtered) \<Rightarrow>
               (case finish data2 filtered of
                  Inl err \<Rightarrow> (out, Inl err)
                | Inr data4 \<Rightarrow> (out @ [Total_retained (length filtered), Done], Inr data4))))"

definition fix_ekadashi_data :: "json \<Rightarrow> log_line list \<times> (error + json)" where
  "fix_ekadashi_data = fix_ekadashi_data_with ist_corrections"

section \<open>Properties of the offset resolver\<close>

text \<open>
  Membership in the interval from \<open>DST_START_2026\<close> (included) to \<open>DST_END_2026\<close>
  (excluded), spelled out on the fields of the instant.
\<close>

lemma in_dst_fields:
  "(dt_le DST_START_2026 dt \<and> dt_lt dt DST_END_2026) =
     (year dt = 2026 \<and>
       (3 < month dt \<and> month dt < 11
        \<or> month dt = 3 \<and> (8 < day dt \<or> day dt = 8 \<and> 2 \<le> hour dt)
        \<or> month dt = 11 \<and> (day dt = 0 \<or> day dt = 1 \<and> hour dt < 2)))"
  unfolding dt_le_def dt_lt_def dt_fields_def DST_START_2026_def DST_END_2026_def mk_datetime_def
  by (auto split: if_splits)

text \<open>
  Claim C1. For every local instant the resolver returns the summer offset \<open>-07:00\<close>
  exactly when the instant lies in the half-open interval from 2026-03-08T02:00
  (included) to 2026-11-01T02:00 (excluded), and the standard offset \<open>-08:00\<close> exactly
  when it does not. The start boundary itself gets the summer offset, the end boundary
  itself the standard offset, and so do the minutes just before them the other way round.
  On the fields of the instant, the interval is: year 2026, and a month from April to
  October, or March from the 8th at 02:00 on, or November before the 1st at 02:00. The function
  is defined on every instant.
\<close>

theorem get_pst_offset_interval:
  "(get_pst_offset dt = ''-07:00'') = (dt_le DST_START_2026 dt \<and> dt_lt dt DST_END_2026)
   \<and> (get_pst_offset dt = ''-08:00'') = (\<not> (dt_le DST_START_2026 dt \<and> dt_lt dt DST_END_2026))
   \<and> (get_pst_offset dt = ''-07:00'') =
        (year dt = 2026 \<and>
          (3 < month dt \<and> month dt < 11
           \<or> month dt = 3 \<and> (8 < day dt \<or> day dt = 8 \<and> 2 \<le> hour dt)
           \<or> month dt = 11 \<and> (day dt = 0 \<or> day dt = 1 \<and> hour dt < 2)))
   \<and> get_pst_offset DST_START_2026 = ''-07:00''
   \<and> get_pst_offset (mk_datetime 2026 3 8 1 59) = ''-08:00''
   \<and> get_pst_offset (mk_datetime 2026 11 1 1 59) = ''-07:00''
   \<and> get_pst_offset DST_END_2026 = ''-08:00''"
proof -
  have summer: "(get_pst_offset dt = ''-07:00'')
      = (dt_le DST_START_2026 dt \<and> dt_lt dt DST_END_2026)"
    and standard: "(get_pst_offset dt = ''-08:00'')
      = (\<not> (dt_le DST_START_2026 dt \<and> dt_lt dt DST_END_2026))"
    by (simp_all add: get_pst_offset_def)
  have boundaries: "get_pst_offset DST_START_2026 = ''-07:00''"
    "get_pst_offset (mk_datetime 2026 3 8 1 59) = ''-08:00''"
    "get_pst_offset (mk_datetime 2026 11 1 1 59) = ''-07:00''"
    "get_pst_offset DST_END_2026 = ''-08:00''"
    by (simp_all add: get_pst_offset_def dt_le_def dt_lt_def dt_fields_def DST_START_2026_def
        DST_END_2026_def mk_datetime_def)
  from summer standard summer [unfolded in_dst_fields] boundaries
  show ?thesis by (intro conjI)
qed

theorem get_pst_offset_interval_witness:
  "get_pst_offset (mk_datetime 2026 6 15 5 35) = ''-07:00''
   \<and> get_pst_offset (mk_datetime 2026 12 1 6 45) = ''-08:00''"
  using get_pst_offset_interval [of "mk_datetime 2026 6 15 5 35"]
    get_pst_offset_interval [of "mk_datetime 2026 12 1 6 45"]
  by (simp add: dt_le_def dt_lt_def dt_fields_def DST_START_2026_def DST_END_2026_def
      mk_datetime_def)

section \<open>Reading an entry: the fields the claims speak of\<close>

text \<open>
  The field of a JSON object, the IST date string of an entry, the test that its leading
  four characters are \<open>2026\<close>, the English name (with the defaults of \<^verbatim>\<open>.get\<close>), and an
  entry with its IST record replaced or its identifier set.
\<close>

fun obj_field :: "json \<Rightarrow> string \<Rightarrow> json option" where
  "obj_field (JObj kvs) k = map_of kvs k"
| "obj_field x k = None"

definition ist_date_str :: "json \<Rightarrow> string option" where
  "ist_date_str e =
     (case obj_field e ''timing'' of
        None \<Rightarrow> None
      | Some t \<Rightarrow>
          (case obj_field t ''IST'' of
             None \<Rightarrow> None
           | Some i \<Rightarrow> (case obj_field i ''date'' of Some (JStr s) \<Rightarrow> Some s | _ \<Rightarrow> None)))"

definition in_2026 :: "json \<Rightarrow> bool" where
  "in_2026 e = (case ist_date_str e of None \<Rightarrow> False | Some s \<Rightarrow> take 4 s = ''2026'')"

definition english_name :: "json \<Rightarrow> json" where
  "english_name e =
     (case obj_field e ''name'' of
        None \<Rightarrow> JStr []
      | Some n \<Rightarrow> (case obj_field n ''en'' of None \<Rightarrow> JStr [] | Some v \<Rightarrow> v))"

definition table_entry :: "(string \<times> json) list \<Rightarrow> json \<Rightarrow> json option" where
  "table_entry tbl n = (case n of JStr k \<Rightarrow> map_of tbl k | _ \<Rightarrow> None)"

definition replace_ist :: "json \<Rightarrow> json \<Rightarrow> json" where
  "replace_ist e c =
     (case e of
        JObj kvs \<Rightarrow>
          (case map_of kvs ''timing'' of
             Some (JObj t) \<Rightarrow> JObj (dict_set kvs ''timing'' (JObj (dict_set t ''IST'' c)))
           | _ \<Rightarrow> e)
      | _ \<Rightarrow> e)"

definition spec_correct :: "(string \<times> json) list \<Rightarrow> json \<Rightarrow> json" where
  "spec_correct tbl e =
     (case table_entry tbl (english_name e) of None \<Rightarrow> e | Some c \<Rightarrow> replace_ist e c)"

definition with_id :: "nat \<Rightarrow> json \<Rightarrow> json" where
  "with_id n e = (case e of JObj kvs \<Rightarrow> JObj (dict_set kvs ''id'' (JInt (int n))) | _ \<Rightarrow> e)"

section \<open>Facts about dictionaries and about one pass of the loop\<close>

lemma map_of_dict_set: "map_of (dict_set kvs k v) k' = (if k' = k then Some v else map_of kvs k')"
  by (induction kvs) auto

lemma dict_set_same: "map_of kvs k = Some v \<Longrightarrow> dict_set kvs k v = kvs"
  by (induction kvs) (auto split: if_splits)

lemma ebind_Inr_iff: "(ebind m f = Inr y) = (\<exists>x. m = Inr x \<and> f x = Inr y)"
  by (cases m) (simp_all add: ebind_def)

lemma py_get_Inr_iff:
  "(py_get x k d = Inr y) = (\<exists>kvs. x = JObj kvs \<and> y = (case map_of kvs k of None \<Rightarrow> d | Some v \<Rightarrow> v))"
  by (cases x) auto

lemma py_getitem_Inr_iff:
  "(py_getitem x k = Inr y) = (\<exists>kvs. x = JObj kvs \<and> map_of kvs k = Some y)"
  by (cases x) (auto split: option.splits)

lemma py_setitem_Inr_iff:
  "(py_setitem x k v = Inr y) = (\<exists>kvs. x = JObj kvs \<and> y = JObj (dict_set kvs k v))"
  by (cases x) auto

lemma py_startswith_Inr_iff:
  "(py_startswith x p = Inr b) = (\<exists>s. x = JStr s \<and> b = (take (length p) s = p))"
  by (cases x) auto

lemma dict_contains_Inr_iff:
  "(dict_contains d x = Inr b) = ((\<forall>xs. x \<noteq> JArr xs) \<and> (\<forall>kvs. x \<noteq> JObj kvs) \<and> b = (table_entry d x \<noteq> None))"
  by (cases x) (auto simp: table_entry_def)

lemma dict_getitem_Inr_iff:
  "(dict_getitem d x = Inr c) = (table_entry d x = Some c)"
  by (cases x) (auto simp: table_entry_def split: option.splits)

lemma name_en_Inr: "name_en e = Inr n \<Longrightarrow> n = english_name e"
  by (auto simp: name_en_def english_name_def ebind_Inr_iff py_get_Inr_iff split: option.splits)

lemma set_ist_Inr: "set_ist e c = Inr e' \<Longrightarrow> e' = replace_ist e c"
  by (auto simp: set_ist_def replace_ist_def ebind_Inr_iff py_getitem_Inr_iff py_setitem_Inr_iff)

lemma process_entry_result:
  assumes "process_entry tbl e = Inr (r, ls)"
  shows "r = (if in_2026 e then Some (spec_correct tbl e) else None)"
  using assms
  unfolding process_entry_def
  by (auto simp: ebind_Inr_iff py_get_Inr_iff py_startswith_Inr_iff dict_contains_Inr_iff dict_getitem_Inr_iff
      in_2026_def ist_date_str_def spec_correct_def eval_nat_numeral
      dest!: name_en_Inr set_ist_Inr split: if_splits option.splits json.splits)


lemma dict_set_twice: "dict_set (dict_set kvs k v) k w = dict_set kvs k w"
  by (induction kvs) auto

lemma filter_loop_result:
  "filter_loop tbl es acc out = (out', Inr res) \<Longrightarrow>
     res = acc @ map (spec_correct tbl) (filter in_2026 es)"
proof (induction es arbitrary: acc out)
  case Nil
  then show ?case by simp
next
  case (Cons e es)
  show ?case
  proof (cases "process_entry tbl e")
    case (Inl err)
    with Cons.prems show ?thesis by simp
  next
    case (Inr p)
    obtain r ls where p: "p = (r, ls)" by (cases p)
    from Inr p have r: "r = (if in_2026 e then Some (spec_correct tbl e) else None)"
      by (simp add: process_entry_result)
    show ?thesis
    proof (cases "in_2026 e")
      case True
      with Cons.prems Inr p r
      have "filter_loop tbl es (acc @ [spec_correct tbl e]) (out @ ls) = (out', Inr res)"
        by simp
      from Cons.IH [OF this] True show ?thesis by simp
    next
      case False
      with Cons.prems Inr p r
      have "filter_loop tbl es acc (out @ ls) = (out', Inr res)"
        by simp
      from Cons.IH [OF this] False show ?thesis by simp
    qed
  qed
qed

lemma renumber_result:
  "renumber i es = Inr es' \<Longrightarrow>
     length es' = length es \<and> (\<forall>j<length es. es' ! j = with_id (i + j) (es ! j))"
proof (induction es arbitrary: i es')
  case Nil
  then show ?case by simp
next
  case (Cons e es)
  from Cons.prems obtain e' rest where
    e': "py_setitem e ''id'' (JInt (int i)) = Inr e'" and
    rest: "renumber (Suc i) es = Inr rest" and
    es': "es' = e' # rest"
    by (auto simp: ebind_Inr_iff)
  from e' have hd: "e' = with_id i e"
    by (auto simp: py_setitem_Inr_iff with_id_def)
  from Cons.IH [OF rest]
  have len: "length rest = length es"
    and nth: "\<And>j. j < length es \<Longrightarrow> rest ! j = with_id (Suc i + j) (es ! j)"
    by simp_all
  show ?case
  proof (intro conjI allI impI)
    show "length es' = length (e # es)" using es' len by simp
  next
    fix j assume "j < length (e # es)"
    then show "es' ! j = with_id (i + j) ((e # es) ! j)"
      using es' hd nth by (cases j) simp_all
  qed
qed

lemma set_cities_Inr:
  "set_cities (JObj kvs) = Inr d2 \<Longrightarrow>
     \<exists>tzs. d2 = JObj (dict_set kvs ''timezones'' tzs)"
  by (auto simp: set_cities_def ebind_Inr_iff py_setitem_Inr_iff py_getitem_Inr_iff)

lemma prepare_result:
  assumes "prepare d = Inr (d2, entries)"
  shows "\<exists>kvs kvs2 eks. d = JObj kvs \<and> d2 = JObj kvs2 \<and> map_of kvs ''ekadashis'' = Some eks
           \<and> py_iter eks = Inr entries
           \<and> (\<forall>k. k \<noteq> ''date_range'' \<and> k \<noteq> ''timezones'' \<longrightarrow> map_of kvs2 k = map_of kvs k)"
  using assms
  by (auto simp: prepare_def ebind_Inr_iff py_setitem_Inr_iff py_getitem_Inr_iff map_of_dict_set
      dest!: set_cities_Inr split: if_splits)

lemma finish_result:
  assumes "finish (JObj kvs2) filtered = Inr d4"
  shows "\<exists>numbered. renumber 1 filtered = Inr numbered
           \<and> d4 = JObj (dict_set kvs2 ''ekadashis'' (JArr numbered))"
  using assms
  by (auto simp: finish_def ebind_Inr_iff py_setitem_Inr_iff dict_set_twice)

lemma fix_stages:
  assumes "fix_ekadashi_data_with tbl d = (out, Inr d')"
  shows "\<exists>d2 entries out1 filtered. prepare d = Inr (d2, entries)
           \<and> filter_loop tbl entries [] [] = (out1, Inr filtered)
           \<and> finish d2 filtered = Inr d'"
proof (cases "prepare d")
  case (Inl err)
  with assms show ?thesis by (simp add: fix_ekadashi_data_with_def)
next
  case (Inr p)
  obtain d2 entries where p: "p = (d2, entries)" by (cases p)
  obtain out1 r where loop: "filter_loop tbl entries [] [] = (out1, r)"
    by (cases "filter_loop tbl entries [] []")
  show ?thesis
  proof (cases r)
    case (Inl err)
    with assms Inr p loop show ?thesis by (simp add: fix_ekadashi_data_with_def)
  next
    case r: (Inr filtered)
    show ?thesis
    proof (cases "finish d2 filtered")
      case (Inl err)
      with assms Inr p loop r show ?thesis by (simp add: fix_ekadashi_data_with_def)
    next
      case fin: (Inr d4)
      with assms Inr p loop r have "d4 = d'" by (simp add: fix_ekadashi_data_with_def)
      with Inr p loop r fin show ?thesis by simp
    qed
  qed
qed

lemma fix_result:
  assumes "fix_ekadashi_data_with tbl d = (out, Inr d')"
  shows "\<exists>eks xs ys. py_getitem d ''ekadashis'' = Inr eks \<and> py_iter eks = Inr xs
           \<and> py_getitem d' ''ekadashis'' = Inr (JArr ys)
           \<and> length ys = length (filter in_2026 xs)
           \<and> (\<forall>i<length ys. ys ! i = with_id (Suc i) (spec_correct tbl (filter in_2026 xs ! i)))"
proof -
  from fix_stages [OF assms] obtain d2 entries out1 filtered where
    prep: "prepare d = Inr (d2, entries)" and
    loop: "filter_loop tbl entries [] [] = (out1, Inr filtered)" and
    fin: "finish d2 filtered = Inr d'"
    by blast
  from prepare_result [OF prep] obtain kvs kvs2 eks where
    d: "d = JObj kvs" and d2: "d2 = JObj kvs2" and eks: "map_of kvs ''ekadashis'' = Some eks"
    and it: "py_iter eks = Inr entries"
    by (elim exE conjE)
  from finish_result [OF fin [unfolded d2]] obtain numbered where
    ren: "renumber 1 filtered = Inr numbered" and
    d': "d' = JObj (dict_set kvs2 ''ekadashis'' (JArr numbered))"
    by (elim exE conjE)
  from filter_loop_result [OF loop]
  have filtered: "filtered = map (spec_correct tbl) (filter in_2026 entries)" by simp
  from renumber_result [OF ren]
  have len: "length numbered = length filtered"
    and nth: "\<And>j. j < length filtered \<Longrightarrow> numbered ! j = with_id (1 + j) (filtered ! j)"
    by simp_all
  have a: "py_getitem d ''ekadashis'' = Inr eks" using d eks by simp
  have b: "py_getitem d' ''ekadashis'' = Inr (JArr numbered)"
    using d' by (simp add: map_of_dict_set)
  have c: "length numbered = length (filter in_2026 entries)"
    using len filtered by simp
  have e: "\<forall>i<length numbered.
      numbered ! i = with_id (Suc i) (spec_correct tbl (filter in_2026 entries ! i))"
    using nth len filtered by simp
  from a it b c e show ?thesis by (intro exI conjI)
qed

definition ist_record :: "json \<Rightarrow> json option" where
  "ist_record e = (case obj_field e ''timing'' of None \<Rightarrow> None | Some t \<Rightarrow> obj_field t ''IST'')"

lemma map_fst_dict_set:
  "map_of kvs k = Some u \<Longrightarrow> map fst (dict_set kvs k v) = map fst kvs"
  by (induction kvs) (auto split: if_splits)

lemma in_2026_shape:
  assumes "in_2026 e"
  shows "\<exists>kvs t i s. e = JObj kvs \<and> map_of kvs ''timing'' = Some (JObj t)
           \<and> map_of t ''IST'' = Some (JObj i) \<and> map_of i ''date'' = Some (JStr s)
           \<and> take 4 s = ''2026''"
proof -
  from assms obtain s where s: "ist_date_str e = Some s" and p: "take 4 s = ''2026''"
    by (auto simp: in_2026_def split: option.splits)
  from s obtain kvs where e: "e = JObj kvs"
    by (cases e) (simp_all add: ist_date_str_def)
  from s e obtain tj where tj: "map_of kvs ''timing'' = Some tj"
    by (auto simp: ist_date_str_def split: option.splits)
  from s e tj obtain t where t: "tj = JObj t"
    by (cases tj) (simp_all add: ist_date_str_def)
  from s e tj t obtain ij where ij: "map_of t ''IST'' = Some ij"
    by (auto simp: ist_date_str_def split: option.splits)
  from s e tj t ij obtain i where i: "ij = JObj i"
    by (cases ij) (simp_all add: ist_date_str_def)
  from s e tj t ij i have "map_of i ''date'' = Some (JStr s)"
    by (auto simp: ist_date_str_def split: option.splits json.splits)
  with e tj t ij i p show ?thesis by simp
qed

text \<open>What the loop and the renumbering do to a retained entry, field by field.\<close>

lemma retained_entry_fields:
  assumes "in_2026 e"
  shows "\<exists>kvs kvs' t t'. e = JObj kvs \<and> with_id n (spec_correct tbl e) = JObj kvs'
           \<and> map_of kvs ''timing'' = Some (JObj t) \<and> map_of kvs' ''timing'' = Some (JObj t')
           \<and> map_of t' ''IST'' =
                 (case table_entry tbl (english_name e) of None \<Rightarrow> map_of t ''IST''
                  | Some c \<Rightarrow> Some c)
           \<and> (\<forall>z. z \<noteq> ''IST'' \<longrightarrow> map_of t' z = map_of t z)
           \<and> map fst t' = map fst t
           \<and> (\<forall>k. k \<noteq> ''timing'' \<and> k \<noteq> ''id'' \<longrightarrow> map_of kvs' k = map_of kvs k)
           \<and> map_of kvs' ''id'' = Some (JInt (int n))"
proof -
  from in_2026_shape [OF assms] obtain kvs t i where
    e: "e = JObj kvs" and t: "map_of kvs ''timing'' = Some (JObj t)"
    and i: "map_of t ''IST'' = Some (JObj i)"
    by (elim exE conjE)
  show ?thesis
  proof (cases "table_entry tbl (english_name e)")
    case None
    then have "with_id n (spec_correct tbl e) = JObj (dict_set kvs ''id'' (JInt (int n)))"
      by (simp add: spec_correct_def with_id_def e)
    with e t None show ?thesis
      by (simp add: map_of_dict_set)
  next
    case (Some c)
    then have "with_id n (spec_correct tbl e) =
        JObj (dict_set (dict_set kvs ''timing'' (JObj (dict_set t ''IST'' c))) ''id'' (JInt (int n)))"
      by (simp add: spec_correct_def with_id_def replace_ist_def e t)
    with e t i Some show ?thesis
      by (simp add: map_of_dict_set map_fst_dict_set)
  qed
qed

lemma retained_entry_name:
  assumes "in_2026 e"
  shows "english_name (with_id n (spec_correct tbl e)) = english_name e"
proof -
  from retained_entry_fields [OF assms, of n tbl] obtain kvs kvs' where
    e: "e = JObj kvs" and e': "with_id n (spec_correct tbl e) = JObj kvs'"
    and frame: "\<forall>k. k \<noteq> ''timing'' \<and> k \<noteq> ''id'' \<longrightarrow> map_of kvs' k = map_of kvs k"
    by (elim exE conjE)
  from frame have "map_of kvs' ''name'' = map_of kvs ''name''" by simp
  with e e' show ?thesis by (simp add: english_name_def)
qed

section \<open>A sample document\<close>

text \<open>
  A small document of the input's shape, with events of three years; two share the name
  of a corrected Ekadashi.
\<close>

definition timing_record :: "string \<Rightarrow> string \<Rightarrow> json" where
  "timing_record d z =
     JObj [(''date'', JStr d), (''fasting_start'', JStr (d @ ''T06:00:00'' @ z)),
           (''parana_start'', JStr (d @ ''T06:10:00'' @ z)),
           (''parana_end'', JStr (d @ ''T10:00:00'' @ z))]"

definition sample_event :: "int \<Rightarrow> string \<Rightarrow> string \<Rightarrow> string \<Rightarrow> json" where
  "sample_event i n d_ist d_pst =
     JObj [(''id'', JInt i), (''name'', JObj [(''en'', JStr n)]),
           (''timing'', JObj [(''IST'', timing_record d_ist ''+05:30''),
                              (''PST'', timing_record d_pst ''-08:00'')])]"

definition sample_doc :: "json list \<Rightarrow> json" where
  "sample_doc es =
     JObj [(''version'', JStr ''2.0''),
           (''timezones'',
              JObj [(''IST'', JObj [(''cities'', JArr [JStr ''Delhi'', JStr ''Mumbai''])])]),
           (''ekadashis'', JArr es)]"

definition sample_events :: "json list" where
  "sample_events =
     [sample_event 1 ''Saphala Ekadashi'' ''2025-12-15'' ''2025-12-14'',
      sample_event 2 ''Kamada Ekadashi'' ''2026-03-29'' ''2026-03-28'',
      sample_event 3 ''Mohini Ekadashi'' ''2026-04-26'' ''2026-04-26'',
      sample_event 4 ''Mohini Ekadashi'' ''2027-05-16'' ''2027-05-15'']"

definition mohini_correction :: json where
  "mohini_correction = correction ''2026-04-27'' ''2026-04-27T05:36:00+05:30''
        ''2026-04-28T05:35:00+05:30'' ''2026-04-28T09:47:00+05:30''"

definition sample_kept :: "json list" where
  "sample_kept =
     [sample_event 1 ''Kamada Ekadashi'' ''2026-03-29'' ''2026-03-28'',
      JObj [(''id'', JInt 2), (''name'', JObj [(''en'', JStr ''Mohini Ekadashi'')]),
            (''timing'', JObj [(''IST'', mohini_correction),
                               (''PST'', timing_record ''2026-04-26'' ''-08:00'')])]]"

definition sample_result :: "json list \<Rightarrow> json" where
  "sample_result es =
     JObj [(''version'', JStr ''2.0''),
           (''timezones'', JObj [(''IST'', JObj [(''cities'', JArr [JStr ''India''])])]),
           (''ekadashis'', JArr es),
           (''date_range'', date_range_2026)]"

lemmas corrector_defs =
  fix_ekadashi_data_def fix_ekadashi_data_with_def prepare_def finish_def set_cities_def
  process_entry_def name_en_def set_ist_def ebind_def

lemmas sample_defs =
  sample_doc_def sample_events_def sample_event_def timing_record_def sample_kept_def
  sample_result_def mohini_correction_def ist_corrections_def correction_def

lemma sample_run:
  "fix_ekadashi_data (sample_doc sample_events) =
     ([Removed (JStr ''Saphala Ekadashi'') (JStr ''2025-12-15''),
       Kept (JStr ''Kamada Ekadashi'') (JStr ''2026-03-29''),
       Corrected (JStr ''Mohini Ekadashi'') (JStr ''2026-04-27''),
       Kept (JStr ''Mohini Ekadashi'') (JStr ''2026-04-26''),
       Removed (JStr ''Mohini Ekadashi'') (JStr ''2027-05-16''),
       Total_retained 2, Done],
      Inr (sample_result sample_kept))"
  by (simp add: corrector_defs sample_defs)

lemma sample_filter:
  "filter in_2026 sample_events =
     [sample_event 2 ''Kamada Ekadashi'' ''2026-03-29'' ''2026-03-28'',
      sample_event 3 ''Mohini Ekadashi'' ''2026-04-26'' ''2026-04-26'']"
  by (simp add: in_2026_def ist_date_str_def sample_defs)

section \<open>The corrector: filtering and renumbering\<close>

subsection \<open>Documents the corrector runs through\<close>

text \<open>
  The script checks no type. The shape it relies on, with the defaults of \<^verbatim>\<open>.get\<close>: an
  entry is a dict; its \<open>timing\<close>, the \<open>IST\<close> record in it and its \<open>name\<close> are dicts where
  they are present; the IST \<open>date\<close> is a string where it is present; and the English name
  can be looked up in a dict (it is no list and no dict). The document has a dict under
  \<open>timezones\<close> with a dict under \<open>IST\<close>.
\<close>

fun is_obj :: "json \<Rightarrow> bool" where
  "is_obj (JObj kvs) = True"
| "is_obj x = False"

fun is_str :: "json \<Rightarrow> bool" where
  "is_str (JStr s) = True"
| "is_str x = False"

fun hashable :: "json \<Rightarrow> bool" where
  "hashable (JArr xs) = False"
| "hashable (JObj kvs) = False"
| "hashable x = True"

definition get_or :: "json \<Rightarrow> string \<Rightarrow> json \<Rightarrow> json" where
  "get_or x k dflt = (case obj_field x k of None \<Rightarrow> dflt | Some v \<Rightarrow> v)"

definition timed_event :: "json \<Rightarrow> bool" where
  "timed_event e =
     (is_obj e
      \<and> is_obj (get_or e ''timing'' (JObj []))
      \<and> is_obj (get_or (get_or e ''timing'' (JObj [])) ''IST'' (JObj []))
      \<and> is_str (get_or (get_or (get_or e ''timing'' (JObj [])) ''IST'' (JObj [])) ''date'' (JStr []))
      \<and> is_obj (get_or e ''name'' (JObj []))
      \<and> hashable (get_or (get_or e ''name'' (JObj [])) ''en'' (JStr [])))"

definition timezones_ok :: "json \<Rightarrow> bool" where
  "timezones_ok d =
     (case obj_field d ''timezones'' of
        None \<Rightarrow> False
      | Some tzs \<Rightarrow> (case obj_field tzs ''IST'' of None \<Rightarrow> False | Some ist \<Rightarrow> is_obj ist))"

lemma is_obj_iff: "is_obj x = (\<exists>kvs. x = JObj kvs)"
  by (cases x) simp_all

lemma is_str_iff: "is_str x = (\<exists>s. x = JStr s)"
  by (cases x) simp_all

lemma py_get_obj: "is_obj x \<Longrightarrow> py_get x k dflt = Inr (get_or x k dflt)"
  by (cases x) (simp_all add: get_or_def)

lemma table_dates_2026:
  assumes "map_of ist_corrections k = Some c"
  shows "\<exists>ckvs s. c = JObj ckvs \<and> map_of ckvs ''date'' = Some (JStr s) \<and> take 4 s = ''2026''"
  using assms
  by (auto simp: ist_corrections_def correction_def split: if_splits)

lemma table_entry_date:
  assumes "table_entry ist_corrections n = Some c"
  shows "\<exists>dv. py_getitem c ''date'' = Inr dv"
proof -
  from assms obtain k where "map_of ist_corrections k = Some c"
    by (cases n) (simp_all add: table_entry_def)
  from table_dates_2026 [OF this] obtain ckvs s where
    "c = JObj ckvs" "map_of ckvs ''date'' = Some (JStr s)"
    by (elim exE conjE)
  then show ?thesis by simp
qed

lemma name_en_total:
  assumes "is_obj e" and "is_obj (get_or e ''name'' (JObj []))"
  shows "name_en e = Inr (get_or (get_or e ''name'' (JObj [])) ''en'' (JStr []))"
  unfolding name_en_def
  by (simp add: py_get_obj [OF assms(1)] py_get_obj [OF assms(2)] ebind_def)

lemma hashable_contains:
  "hashable n \<Longrightarrow> dict_contains tbl n = Inr (table_entry tbl n \<noteq> None)"
  by (cases n) (simp_all add: table_entry_def)

lemma process_entry_total:
  assumes "timed_event e"
  shows "\<exists>r ls. process_entry ist_corrections e = Inr (r, ls)"
proof -
  let ?timing = "get_or e ''timing'' (JObj [])"
  let ?ist = "get_or ?timing ''IST'' (JObj [])"
  let ?date = "get_or ?ist ''date'' (JStr [])"
  let ?n = "get_or (get_or e ''name'' (JObj [])) ''en'' (JStr [])"
  from assms have e: "is_obj e" and t: "is_obj ?timing" and i: "is_obj ?ist"
    and d: "is_str ?date" and nm: "is_obj (get_or e ''name'' (JObj []))" and h: "hashable ?n"
    by (simp_all add: timed_event_def)
  from d obtain s where s: "?date = JStr s" unfolding is_str_iff ..
  note name = name_en_total [OF e nm]
  have start: "process_entry ist_corrections e =
      (if take 4 s = ''2026'' then
         ebind (name_en e) (\<lambda>ekadashi_name.
         ebind (dict_contains ist_corrections ekadashi_name) (\<lambda>needs.
           if needs then
             ebind (dict_getitem ist_corrections ekadashi_name) (\<lambda>c.
             ebind (set_ist e c) (\<lambda>ekadashi'.
             ebind (py_getitem c ''date'') (\<lambda>d.
               Inr (Some ekadashi',
                    [Corrected ekadashi_name d, Kept ekadashi_name (JStr s)]))))
           else Inr (Some e, [Kept ekadashi_name (JStr s)])))
       else
         ebind (name_en e) (\<lambda>ekadashi_name.
           Inr (None, [Removed ekadashi_name (JStr s)])))"
    unfolding process_entry_def
    by (simp add: py_get_obj [OF e] py_get_obj [OF t] py_get_obj [OF i] s ebind_def
        eval_nat_numeral)
  show ?thesis
  proof (cases "take 4 s = ''2026''")
    case False
    then show ?thesis unfolding start by (simp add: name ebind_def)
  next
    case True
    show ?thesis
    proof (cases "table_entry ist_corrections ?n")
      case None
      with True show ?thesis
        unfolding start by (simp add: name ebind_def hashable_contains [OF h])
    next
      case (Some c)
      from table_entry_date [OF Some] obtain dv where dv: "py_getitem c ''date'' = Inr dv" ..
      have in26: "in_2026 e"
        using e t i s True
        by (auto simp: in_2026_def ist_date_str_def get_or_def is_obj_iff
            split: option.splits json.splits)
      from in_2026_shape [OF in26] obtain kvs tm where
        "e = JObj kvs" "map_of kvs ''timing'' = Some (JObj tm)"
        by (elim exE conjE)
      then have "\<exists>e'. set_ist e c = Inr e'"
        by (simp add: set_ist_def ebind_def)
      then obtain e' where e': "set_ist e c = Inr e'" ..
      have g: "dict_getitem ist_corrections ?n = Inr c"
        using Some by (simp add: dict_getitem_Inr_iff)
      from True Some show ?thesis
        unfolding start by (simp add: name ebind_def hashable_contains [OF h] g e' dv)
    qed
  qed
qed

lemma filter_loop_total:
  assumes "list_all timed_event es"
  shows "\<exists>out' res. filter_loop ist_corrections es acc out = (out', Inr res)"
  using assms
proof (induction es arbitrary: acc out)
  case Nil
  then show ?case by simp
next
  case (Cons e es)
  from Cons.prems have e: "timed_event e" and rest: "list_all timed_event es" by simp_all
  from process_entry_total [OF e] obtain r ls where
    p: "process_entry ist_corrections e = Inr (r, ls)" by (elim exE)
  show ?case
  proof (cases r)
    case None
    with p Cons.IH [OF rest, of acc "out @ ls"] show ?thesis by simp
  next
    case (Some e')
    with p Cons.IH [OF rest, of "acc @ [e']" "out @ ls"] show ?thesis by simp
  qed
qed

lemma renumber_total:
  assumes "list_all is_obj es"
  shows "\<exists>es'. renumber i es = Inr es'"
  using assms
proof (induction es arbitrary: i)
  case Nil
  then show ?case by simp
next
  case (Cons e es)
  from Cons.prems have "is_obj e" and rest: "list_all is_obj es" by simp_all
  then obtain kvs where e: "e = JObj kvs" unfolding is_obj_iff by (elim exE)
  from Cons.IH [OF rest, of "Suc i"] obtain es' where "renumber (Suc i) es = Inr es'" ..
  with e show ?case by (simp add: ebind_def)
qed

lemma retained_is_obj:
  assumes "in_2026 e"
  shows "is_obj (spec_correct tbl e)"
proof -
  from retained_entry_fields [OF assms, of 0 tbl] obtain kvs' where
    "with_id 0 (spec_correct tbl e) = JObj kvs'" by (elim exE conjE)
  then show ?thesis by (cases "spec_correct tbl e") (simp_all add: with_id_def)
qed

lemma prepare_total:
  assumes g: "py_getitem d ''ekadashis'' = Inr eks" and it: "py_iter eks = Inr xs"
    and tz: "timezones_ok d"
  shows "\<exists>kvs2. prepare d = Inr (JObj kvs2, xs)"
proof -
  from g obtain kvs where d: "d = JObj kvs" and eks: "map_of kvs ''ekadashis'' = Some eks"
    unfolding py_getitem_Inr_iff by (elim exE conjE)
  from tz d obtain tzs where tzs: "map_of kvs ''timezones'' = Some tzs"
    by (auto simp: timezones_ok_def split: option.splits)
  from tz d tzs obtain ist where ist: "obj_field tzs ''IST'' = Some ist" and o: "is_obj ist"
    by (auto simp: timezones_ok_def split: option.splits)
  from ist obtain t where t: "tzs = JObj t" and ist': "map_of t ''IST'' = Some ist"
    by (cases tzs) simp_all
  from o obtain ikvs where i: "ist = JObj ikvs" unfolding is_obj_iff ..
  show ?thesis
    unfolding prepare_def set_cities_def
    by (simp add: d ebind_def map_of_dict_set tzs t ist' i eks it)
qed

lemma finish_total:
  assumes "list_all is_obj filtered"
  shows "\<exists>d4. finish (JObj kvs2) filtered = Inr d4"
proof -
  from renumber_total [OF assms, of 1] obtain numbered where
    "renumber 1 filtered = Inr numbered" ..
  then show ?thesis unfolding finish_def by (simp add: ebind_def)
qed

lemma fix_total:
  assumes g: "py_getitem d ''ekadashis'' = Inr eks" and it: "py_iter eks = Inr xs"
    and tz: "timezones_ok d" and es: "list_all timed_event xs"
  shows "\<exists>out d'. fix_ekadashi_data d = (out, Inr d')"
proof -
  from prepare_total [OF g it tz] obtain kvs2 where
    prep: "prepare d = Inr (JObj kvs2, xs)" ..
  from filter_loop_total [OF es, of "[]" "[]"] obtain out1 filtered where
    loop: "filter_loop ist_corrections xs [] [] = (out1, Inr filtered)" by (elim exE)
  from filter_loop_result [OF loop]
  have "filtered = map (spec_correct ist_corrections) (filter in_2026 xs)" by simp
  then have "list_all is_obj filtered"
    by (simp add: list_all_iff retained_is_obj)
  from finish_total [OF this, of kvs2] obtain d4 where
    fin: "finish (JObj kvs2) filtered = Inr d4" ..
  show ?thesis
    unfolding fix_ekadashi_data_def fix_ekadashi_data_with_def
    by (simp add: prep loop fin)
qed

lemma retained_entry_id:
  assumes "in_2026 e"
  shows "obj_field (with_id n (spec_correct tbl e)) ''id'' = Some (JInt (int n))"
proof -
  from retained_entry_fields [OF assms, of n tbl] obtain kvs' where
    "with_id n (spec_correct tbl e) = JObj kvs'" and "map_of kvs' ''id'' = Some (JInt (int n))"
    by (elim exE conjE)
  then show ?thesis by simp
qed

lemma retained_ids:
  assumes len: "length ys = length (filter in_2026 xs)"
    and nth: "\<forall>i<length ys. ys ! i = with_id (Suc i) (spec_correct tbl (filter in_2026 xs ! i))"
  shows "map (\<lambda>y. obj_field y ''id'') ys = map (\<lambda>i. Some (JInt (int i))) [1..<Suc (length ys)]"
proof (rule nth_equalityI)
  show "length (map (\<lambda>y. obj_field y ''id'') ys)
      = length (map (\<lambda>i. Some (JInt (int i))) [1..<Suc (length ys)])"
    by (simp del: upt_Suc)
next
  fix i assume "i < length (map (\<lambda>y. obj_field y ''id'') ys)"
  then have i: "i < length ys" by simp
  with len have "filter in_2026 xs ! i \<in> set (filter in_2026 xs)"
    by (simp only: nth_mem)
  then have "in_2026 (filter in_2026 xs ! i)" by simp
  from retained_entry_id [OF this] nth i
  have "obj_field (ys ! i) ''id'' = Some (JInt (int (Suc i)))" by simp
  moreover from i have "[1..<Suc (length ys)] ! i = Suc i"
    by (simp add: nth_upt del: upt_Suc)
  ultimately show "map (\<lambda>y. obj_field y ''id'') ys ! i
      = map (\<lambda>i. Some (JInt (int i))) [1..<Suc (length ys)] ! i"
    using i by (simp del: upt_Suc)
qed

lemma fix_output:
  assumes run: "fix_ekadashi_data d = (out, Inr d')"
    and g: "py_getitem d ''ekadashis'' = Inr eks" and it: "py_iter eks = Inr xs"
  shows "\<exists>ys. py_getitem d' ''ekadashis'' = Inr (JArr ys)
           \<and> length ys = length (filter in_2026 xs)
           \<and> (\<forall>i<length ys.
                 ys ! i = with_id (Suc i) (spec_correct ist_corrections (filter in_2026 xs ! i)))
           \<and> map (\<lambda>y. obj_field y ''id'') ys
                 = map (\<lambda>i. Some (JInt (int i))) [1..<Suc (length ys)]"
proof -
  from fix_result [OF run [unfolded fix_ekadashi_data_def]] obtain eks' xs' ys where
    a: "py_getitem d ''ekadashis'' = Inr eks'" and b: "py_iter eks' = Inr xs'"
    and c: "py_getitem d' ''ekadashis'' = Inr (JArr ys)"
    and len: "length ys = length (filter in_2026 xs')"
    and nth: "\<forall>i<length ys.
        ys ! i = with_id (Suc i) (spec_correct ist_corrections (filter in_2026 xs' ! i))"
    by (elim exE conjE)
  from a b g it have xs: "xs' = xs" by simp
  note ids = retained_ids [OF len nth]
  from c len nth ids show ?thesis unfolding xs by (intro exI conjI)
qed

text \<open>
  Claim C3. Let the \<open>ekadashis\<close> value of the document iterate as the entries \<open>xs\<close>. If
  the document has its IST timezone record and every entry has the shape of a timed
  event, the corrector succeeds, and the document it writes holds the list \<open>ys\<close> with one
  entry for each entry of \<open>xs\<close> whose IST date string has the leading four characters
  \<open>2026\<close>, and no other, in the original order (the \<open>i\<close>-th entry written is the \<open>i\<close>-th
  such entry of the input, with its correction applied and its identifier set), and the
  identifiers written are 1, 2, ..., M, where M is the number of retained entries. The
  same holds of the document written by any other run that succeeds.
\<close>

theorem corrector_keeps_2026_and_renumbers:
  assumes "py_getitem d ''ekadashis'' = Inr eks"
    and "py_iter eks = Inr xs"
  shows "(timezones_ok d \<and> list_all timed_event xs \<longrightarrow>
            (\<exists>out d' ys. fix_ekadashi_data d = (out, Inr d')
               \<and> py_getitem d' ''ekadashis'' = Inr (JArr ys)
               \<and> length ys = length (filter in_2026 xs)
               \<and> (\<forall>i<length ys.
                     ys ! i = with_id (Suc i)
                                (spec_correct ist_corrections (filter in_2026 xs ! i)))
               \<and> map (\<lambda>y. obj_field y ''id'') ys
                     = map (\<lambda>i. Some (JInt (int i))) [1..<Suc (length ys)]))
       \<and> (\<forall>out d'. fix_ekadashi_data d = (out, Inr d') \<longrightarrow>
            (\<exists>ys. py_getitem d' ''ekadashis'' = Inr (JArr ys)
               \<and> length ys = length (filter in_2026 xs)
               \<and> (\<forall>i<length ys.
                     ys ! i = with_id (Suc i)
                                (spec_correct ist_corrections (filter in_2026 xs ! i)))
               \<and> map (\<lambda>y. obj_field y ''id'') ys
                     = map (\<lambda>i. Some (JInt (int i))) [1..<Suc (length ys)]))"
proof (intro conjI impI allI)
  assume "timezones_ok d \<and> list_all timed_event xs"
  then have tz: "timezones_ok d" and es: "list_all timed_event xs" by simp_all
  from fix_total [OF assms tz es] obtain out d' where
    run: "fix_ekadashi_data d = (out, Inr d')" by (elim exE)
  from fix_output [OF run assms] obtain ys where
    "py_getitem d' ''ekadashis'' = Inr (JArr ys)"
    "length ys = length (filter in_2026 xs)"
    "\<forall>i<length ys. ys ! i = with_id (Suc i) (spec_correct ist_corrections (filter in_2026 xs ! i))"
    "map (\<lambda>y. obj_field y ''id'') ys = map (\<lambda>i. Some (JInt (int i))) [1..<Suc (length ys)]"
    by (elim exE conjE)
  with run
  show "\<exists>out d' ys. fix_ekadashi_data d = (out, Inr d')
      \<and> py_getitem d' ''ekadashis'' = Inr (JArr ys)
      \<and> length ys = length (filter in_2026 xs)
      \<and> (\<forall>i<length ys.
            ys ! i = with_id (Suc i) (spec_correct ist_corrections (filter in_2026 xs ! i)))
      \<and> map (\<lambda>y. obj_field y ''id'') ys
            = map (\<lambda>i. Some (JInt (int i))) [1..<Suc (length ys)]"
    by (intro exI conjI)
next
  fix out d'
  assume run: "fix_ekadashi_data d = (out, Inr d')"
  from fix_output [OF run assms]
  show "\<exists>ys. py_getitem d' ''ekadashis'' = Inr (JArr ys)
      \<and> length ys = length (filter in_2026 xs)
      \<and> (\<forall>i<length ys.
            ys ! i = with_id (Suc i) (spec_correct ist_corrections (filter in_2026 xs ! i)))
      \<and> map (\<lambda>y. obj_field y ''id'') ys
            = map (\<lambda>i. Some (JInt (int i))) [1..<Suc (length ys)]" .
qed

theorem corrector_keeps_2026_and_renumbers_witness:
  "\<exists>out d' ys. fix_ekadashi_data (sample_doc sample_events) = (out, Inr d')
      \<and> py_getitem d' ''ekadashis'' = Inr (JArr ys)
      \<and> length ys = 2
      \<and> ys ! 0 = with_id 1 (sample_event 2 ''Kamada Ekadashi'' ''2026-03-29'' ''2026-03-28'')
      \<and> map (\<lambda>y. obj_field y ''id'') ys = [Some (JInt 1), Some (JInt 2)]"
proof -
  have g: "py_getitem (sample_doc sample_events) ''ekadashis'' = Inr (JArr sample_events)"
    by (simp add: sample_doc_def)
  have i: "py_iter (JArr sample_events) = Inr sample_events" by simp
  have s: "timezones_ok (sample_doc sample_events) \<and> list_all timed_event sample_events"
    by (simp add: timezones_ok_def timed_event_def get_or_def sample_doc_def sample_events_def
        sample_event_def timing_record_def)
  have c: "spec_correct ist_corrections
        (sample_event 2 ''Kamada Ekadashi'' ''2026-03-29'' ''2026-03-28'')
      = sample_event 2 ''Kamada Ekadashi'' ''2026-03-29'' ''2026-03-28''"
    by (simp add: spec_correct_def table_entry_def english_name_def sample_event_def
        ist_corrections_def)
  from corrector_keeps_2026_and_renumbers [OF g i, THEN conjunct1, rule_format, OF s]
  obtain out d' ys where
    run: "fix_ekadashi_data (sample_doc sample_events) = (out, Inr d')"
    and doc: "py_getitem d' ''ekadashis'' = Inr (JArr ys)"
    and len: "length ys = length (filter in_2026 sample_events)"
    and nth: "\<forall>i<length ys. ys ! i
        = with_id (Suc i) (spec_correct ist_corrections (filter in_2026 sample_events ! i))"
    and ids: "map (\<lambda>y. obj_field y ''id'') ys
        = map (\<lambda>i. Some (JInt (int i))) [1..<Suc (length ys)]"
    by (elim exE conjE)
  from len have l: "length ys = 2" by (simp add: sample_filter)
  from nth l have z: "ys ! 0
      = with_id 1 (sample_event 2 ''Kamada Ekadashi'' ''2026-03-29'' ''2026-03-28'')"
    by (simp add: sample_filter c)
  from ids l have n: "map (\<lambda>y. obj_field y ''id'') ys = [Some (JInt 1), Some (JInt 2)]"
    by (simp add: upt_rec)
  from run doc l z n show ?thesis by (intro exI conjI)
qed

section \<open>The corrector: what a correction changes\<close>

lemma retained_nth:
  assumes "fix_ekadashi_data d = (out, Inr d')"
    and "py_getitem d ''ekadashis'' = Inr eks" and "py_iter eks = Inr xs"
    and "py_getitem d' ''ekadashis'' = Inr (JArr ys)" and "i < length ys"
  shows "in_2026 (filter in_2026 xs ! i)
       \<and> ys ! i = with_id (Suc i) (spec_correct ist_corrections (filter in_2026 xs ! i))"
proof -
  from fix_result [OF assms(1) [unfolded fix_ekadashi_data_def]] obtain eks' xs' ys' where
    a: "py_getitem d ''ekadashis'' = Inr eks'" and b: "py_iter eks' = Inr xs'"
    and c: "py_getitem d' ''ekadashis'' = Inr (JArr ys')"
    and len: "length ys' = length (filter in_2026 xs')"
    and nth: "\<forall>i<length ys'.
        ys' ! i = with_id (Suc i) (spec_correct ist_corrections (filter in_2026 xs' ! i))"
    by (elim exE conjE)
  from a b c assms(2,3,4) have xs: "xs' = xs" and ys: "ys' = ys" by simp_all
  from len assms(5) have "filter in_2026 xs ! i \<in> set (filter in_2026 xs)"
    unfolding xs ys by (simp only: nth_mem)
  then have "in_2026 (filter in_2026 xs ! i)" by simp
  with nth assms(5) show ?thesis unfolding xs ys by simp
qed

text \<open>
  Claim C9. Take a successful run, the \<open>i\<close>-th entry \<open>e\<close> the filter retains and the
  \<open>i\<close>-th entry \<open>e'\<close> written, and let the table hold the correction \<open>c\<close> for the English
  name of \<open>e\<close>, so that the correction is applied. Then the IST record of \<open>e'\<close> is \<open>c\<close>;
  every other timezone record of the timing block is the one of \<open>e\<close>, under the same
  labels in the same order; every field of the entry other than \<open>timing\<close> and \<open>id\<close> is the
  one of \<open>e\<close>; and \<open>id\<close> is the new identifier.
\<close>

theorem correction_replaces_only_ist:
  assumes "fix_ekadashi_data d = (out, Inr d')"
    and "py_getitem d ''ekadashis'' = Inr eks" and "py_iter eks = Inr xs"
    and "py_getitem d' ''ekadashis'' = Inr (JArr ys)" and "i < length ys"
    and "table_entry ist_corrections (english_name (filter in_2026 xs ! i)) = Some c"
  shows "\<exists>kvs kvs' t t'. filter in_2026 xs ! i = JObj kvs \<and> ys ! i = JObj kvs'
           \<and> map_of kvs ''timing'' = Some (JObj t) \<and> map_of kvs' ''timing'' = Some (JObj t')
           \<and> map_of t' ''IST'' = Some c
           \<and> (\<forall>z. z \<noteq> ''IST'' \<longrightarrow> map_of t' z = map_of t z)
           \<and> map fst t' = map fst t
           \<and> (\<forall>k. k \<noteq> ''timing'' \<and> k \<noteq> ''id'' \<longrightarrow> map_of kvs' k = map_of kvs k)
           \<and> map_of kvs' ''id'' = Some (JInt (int (Suc i)))"
proof -
  from retained_nth [OF assms(1-5)]
  have keep: "in_2026 (filter in_2026 xs ! i)"
    and eq: "ys ! i = with_id (Suc i) (spec_correct ist_corrections (filter in_2026 xs ! i))"
    by simp_all
  from retained_entry_fields [OF keep, of "Suc i" ist_corrections]
  show ?thesis unfolding eq [symmetric] assms(6) by simp
qed

theorem correction_replaces_only_ist_witness:
  "\<exists>kvs kvs' t t'. sample_event 3 ''Mohini Ekadashi'' ''2026-04-26'' ''2026-04-26'' = JObj kvs
      \<and> sample_kept ! 1 = JObj kvs'
      \<and> map_of kvs ''timing'' = Some (JObj t) \<and> map_of kvs' ''timing'' = Some (JObj t')
      \<and> map_of t' ''IST'' = Some mohini_correction
      \<and> map_of t' ''PST'' = map_of t ''PST''
      \<and> map_of kvs' ''name'' = map_of kvs ''name''"
proof -
  have g: "py_getitem (sample_doc sample_events) ''ekadashis'' = Inr (JArr sample_events)"
    by (simp add: sample_doc_def)
  have i: "py_iter (JArr sample_events) = Inr sample_events" by simp
  have g': "py_getitem (sample_result sample_kept) ''ekadashis'' = Inr (JArr sample_kept)"
    by (simp add: sample_result_def)
  have l: "1 < length sample_kept" by (simp add: sample_kept_def)
  have f: "filter in_2026 sample_events ! 1
      = sample_event 3 ''Mohini Ekadashi'' ''2026-04-26'' ''2026-04-26''"
    by (simp add: sample_filter)
  have c: "table_entry ist_corrections (english_name (filter in_2026 sample_events ! 1))
      = Some mohini_correction"
    unfolding f
    by (simp add: table_entry_def english_name_def sample_event_def ist_corrections_def
        mohini_correction_def)
  from correction_replaces_only_ist [OF sample_run g i g' l c]
  show ?thesis unfolding f by fastforce
qed

section \<open>The corrector: the order of filter and correction\<close>

text \<open>
  The order of the specification's words, to compare with the loop: the correction of
  every entry whose English name is a key of the table (step 2), then the year filter on
  the corrected entries (step 3).
\<close>

definition correct_then_filter :: "(string \<times> json) list \<Rightarrow> json list \<Rightarrow> json list" where
  "correct_then_filter tbl xs = filter in_2026 (map (spec_correct tbl) xs)"

text \<open>An event of 2025 that bears the name of a corrected Ekadashi.\<close>

definition mohini_2025 :: json where
  "mohini_2025 = sample_event 7 ''Mohini Ekadashi'' ''2025-05-08'' ''2025-05-07''"

text \<open>
  Claim C2 fails as stated: the loop tests the year on the date the entry came with and
  corrects only an entry that passed. The event \<open>mohini_2025\<close> has a name of the table,
  the run succeeds, and the event is removed, not corrected: nothing is written for it.
  Corrected before the filter, it would have been written with the table's record.
\<close>

theorem correction_before_filter_counterexample:
  "table_entry ist_corrections (english_name mohini_2025) = Some mohini_correction
   \<and> fix_ekadashi_data (sample_doc [mohini_2025]) =
        ([Removed (JStr ''Mohini Ekadashi'') (JStr ''2025-05-08''), Total_retained 0, Done],
         Inr (sample_result []))
   \<and> correct_then_filter ist_corrections [mohini_2025]
        = [replace_ist mohini_2025 mohini_correction]
   \<and> ist_record (replace_ist mohini_2025 mohini_correction) = Some mohini_correction"
proof (intro conjI)
  show "table_entry ist_corrections (english_name mohini_2025) = Some mohini_correction"
    by (simp add: table_entry_def english_name_def mohini_2025_def sample_defs)
  show "fix_ekadashi_data (sample_doc [mohini_2025]) =
        ([Removed (JStr ''Mohini Ekadashi'') (JStr ''2025-05-08''), Total_retained 0, Done],
         Inr (sample_result []))"
    by (simp add: corrector_defs mohini_2025_def sample_defs)
  show "correct_then_filter ist_corrections [mohini_2025]
        = [replace_ist mohini_2025 mohini_correction]"
    by (simp add: correct_then_filter_def spec_correct_def table_entry_def english_name_def
        replace_ist_def in_2026_def ist_date_str_def mohini_2025_def sample_defs)
  show "ist_record (replace_ist mohini_2025 mohini_correction) = Some mohini_correction"
    by (simp add: ist_record_def replace_ist_def mohini_2025_def sample_defs)
qed

text \<open>
  Claim C2, amended. Take a successful run. The year filter comes first, on the date the
  entry came with: as many entries are written as have an IST date string that starts
  with \<open>2026\<close>. For the \<open>i\<close>-th of these, if its English name is a key of the table, the
  \<open>i\<close>-th entry written bears the same name and has the table's record as its IST record;
  and every entry written whose English name is a key of the table has the table's record
  as its IST record. The \<open>i\<close>-th entry written is the \<open>i\<close>-th entry of the input whose date,
  as it came, starts with \<open>2026\<close>, corrected and numbered; an entry whose date as it came
  does not start with \<open>2026\<close> is therefore not written, whatever its name.
\<close>

theorem correction_applied_to_retained:
  assumes "fix_ekadashi_data d = (out, Inr d')"
    and "py_getitem d ''ekadashis'' = Inr eks" and "py_iter eks = Inr xs"
    and "py_getitem d' ''ekadashis'' = Inr (JArr ys)"
  shows "length ys = length (filter in_2026 xs)
       \<and> (\<forall>i<length ys. \<forall>n c.
             english_name (filter in_2026 xs ! i) = JStr n \<and> map_of ist_corrections n = Some c
             \<longrightarrow> english_name (ys ! i) = JStr n \<and> ist_record (ys ! i) = Some c)
       \<and> (\<forall>y\<in>set ys. \<forall>n c.
             english_name y = JStr n \<and> map_of ist_corrections n = Some c
             \<longrightarrow> ist_record y = Some c)
       \<and> (\<forall>i<length ys. in_2026 (filter in_2026 xs ! i)
             \<and> ys ! i = with_id (Suc i)
                          (spec_correct ist_corrections (filter in_2026 xs ! i)))"
proof -
  have step: "english_name (ys ! i) = JStr n \<and> ist_record (ys ! i) = Some c"
    if i: "i < length ys" and n: "english_name (filter in_2026 xs ! i) = JStr n"
      and c: "map_of ist_corrections n = Some c" for i n c
  proof -
    from retained_nth [OF assms i]
    have keep: "in_2026 (filter in_2026 xs ! i)"
      and eq: "ys ! i = with_id (Suc i) (spec_correct ist_corrections (filter in_2026 xs ! i))"
      by simp_all
    from n c have t: "table_entry ist_corrections (english_name (filter in_2026 xs ! i)) = Some c"
      by (simp add: table_entry_def)
    from retained_entry_fields [OF keep, of "Suc i" ist_corrections] obtain kvs' t' where
      "ys ! i = JObj kvs'" and "map_of kvs' ''timing'' = Some (JObj t')"
      and "map_of t' ''IST'' = Some c"
      unfolding eq [symmetric] t option.case by (elim exE conjE)
    then have "ist_record (ys ! i) = Some c"
      by (simp add: ist_record_def)
    moreover from retained_entry_name [OF keep, of "Suc i" ist_corrections] n
    have "english_name (ys ! i) = JStr n" unfolding eq [symmetric] by simp
    ultimately show ?thesis by simp
  qed
  have name: "english_name (ys ! i) = english_name (filter in_2026 xs ! i)"
    if i: "i < length ys" for i
  proof -
    from retained_nth [OF assms i]
    have keep: "in_2026 (filter in_2026 xs ! i)"
      and eq: "ys ! i = with_id (Suc i) (spec_correct ist_corrections (filter in_2026 xs ! i))"
      by simp_all
    from retained_entry_name [OF keep, of "Suc i" ist_corrections]
    show ?thesis unfolding eq [symmetric] .
  qed
  have len: "length ys = length (filter in_2026 xs)"
  proof -
    from fix_result [OF assms(1) [unfolded fix_ekadashi_data_def]] obtain eks' xs' ys' where
      a: "py_getitem d ''ekadashis'' = Inr eks'" and b: "py_iter eks' = Inr xs'"
      and c: "py_getitem d' ''ekadashis'' = Inr (JArr ys')"
      and l: "length ys' = length (filter in_2026 xs')"
      by (elim exE conjE)
    from a b c assms(2,3,4) have "xs' = xs" and "ys' = ys" by simp_all
    with l show ?thesis by simp
  qed
  have all: "ist_record y = Some c"
    if y: "y \<in> set ys" and n: "english_name y = JStr n"
      and c: "map_of ist_corrections n = Some c" for y n c
  proof -
    from y obtain i where i: "i < length ys" and yi: "ys ! i = y"
      by (auto simp: in_set_conv_nth)
    from name [OF i] n yi have "english_name (filter in_2026 xs ! i) = JStr n" by simp
    from step [OF i this c] yi show ?thesis by simp
  qed
  show ?thesis
  proof (intro conjI allI ballI impI)
    show "length ys = length (filter in_2026 xs)" by (rule len)
  next
    fix i n c
    assume "i < length ys"
      and "english_name (filter in_2026 xs ! i) = JStr n \<and> map_of ist_corrections n = Some c"
    then show "english_name (ys ! i) = JStr n" and "ist_record (ys ! i) = Some c"
      using step by simp_all
  next
    fix y n c
    assume "y \<in> set ys"
      and "english_name y = JStr n \<and> map_of ist_corrections n = Some c"
    then show "ist_record y = Some c" using all by simp
  next
    fix i
    assume i: "i < length ys"
    from retained_nth [OF assms i]
    show "in_2026 (filter in_2026 xs ! i)"
      and "ys ! i = with_id (Suc i) (spec_correct ist_corrections (filter in_2026 xs ! i))"
      by simp_all
  qed
qed

theorem correction_applied_to_retained_witness:
  "length sample_kept = 2
   \<and> english_name (sample_kept ! 1) = JStr ''Mohini Ekadashi''
   \<and> ist_record (sample_kept ! 1) = Some mohini_correction"
proof -
  have g: "py_getitem (sample_doc sample_events) ''ekadashis'' = Inr (JArr sample_events)"
    by (simp add: sample_doc_def)
  have i: "py_iter (JArr sample_events) = Inr sample_events" by simp
  have g': "py_getitem (sample_result sample_kept) ''ekadashis'' = Inr (JArr sample_kept)"
    by (simp add: sample_result_def)
  have l: "1 < length sample_kept" by (simp add: sample_kept_def)
  have n: "english_name (filter in_2026 sample_events ! 1) = JStr ''Mohini Ekadashi''"
    by (simp add: sample_filter english_name_def sample_event_def)
  have c: "map_of ist_corrections ''Mohini Ekadashi'' = Some mohini_correction"
    by (simp add: ist_corrections_def mohini_correction_def)
  note T = correction_applied_to_retained [OF sample_run g i g']
  from T [THEN conjunct2, THEN conjunct1, rule_format, OF l conjI [OF n c]]
    T [THEN conjunct1]
  show ?thesis by (simp add: sample_filter)
qed

section \<open>The corrector: entries without an IST date\<close>

text \<open>
  Two entries the loop does not survive: one without a \<open>timing\<close> key whose \<open>name\<close> is a
  plain string, and one whose IST date is a number.
\<close>

definition plain_name_entry :: json where
  "plain_name_entry = JObj [(''id'', JInt 5), (''name'', JStr ''Kamada Ekadashi'')]"

definition numeric_date_entry :: json where
  "numeric_date_entry =
     JObj [(''id'', JInt 6), (''name'', JObj [(''en'', JStr ''Kamada Ekadashi'')]),
           (''timing'', JObj [(''IST'', JObj [(''date'', JInt 20260329)])])]"

text \<open>
  Claim C10 fails as stated. The entry \<open>plain_name_entry\<close> has no \<open>timing\<close> key, so its
  date is read as the empty string and it is to be removed; but the line reporting the
  removal calls \<^verbatim>\<open>.get\<close> on its name, a string, and the run ends with an AttributeError.
  Nor is the loop total on entries of any shape: a numeric date has no \<^verbatim>\<open>startswith\<close>.
\<close>

theorem missing_timing_counterexample:
  "obj_field plain_name_entry ''timing'' = None
   \<and> process_entry ist_corrections plain_name_entry = Inl AttributeError
   \<and> fix_ekadashi_data (sample_doc [plain_name_entry]) = ([], Inl AttributeError)
   \<and> process_entry ist_corrections numeric_date_entry = Inl AttributeError"
  by (simp add: corrector_defs plain_name_entry_def numeric_date_entry_def sample_doc_def)

text \<open>
  Claim C10, amended. Let an entry be a JSON object whose \<open>name\<close>, if present, is an
  object, and let it lack the \<open>timing\<close> key, or have an object under \<open>timing\<close> that lacks
  the \<open>IST\<close> key, or have an object under \<open>IST\<close> that lacks the \<open>date\<close> key. Then, for any
  table, the pass over the entry raises nothing: the date is taken to be the empty string
  (the removal line prints it so), the entry is not kept, and the loop goes on with the
  rest of the list and the same retained entries.
\<close>

theorem dateless_entry_removed:
  assumes "map_of kvs ''name'' = None \<or> (\<exists>n. map_of kvs ''name'' = Some (JObj n))"
    and "map_of kvs ''timing'' = None
         \<or> (\<exists>t. map_of kvs ''timing'' = Some (JObj t)
               \<and> (map_of t ''IST'' = None
                    \<or> (\<exists>i. map_of t ''IST'' = Some (JObj i) \<and> map_of i ''date'' = None)))"
  shows "process_entry tbl (JObj kvs) = Inr (None, [Removed (english_name (JObj kvs)) (JStr [])])
       \<and> filter_loop tbl (JObj kvs # es) acc out
           = filter_loop tbl es acc (out @ [Removed (english_name (JObj kvs)) (JStr [])])"
proof -
  from assms(1) have n: "name_en (JObj kvs) = Inr (english_name (JObj kvs))"
    by (auto simp: name_en_def english_name_def ebind_def split: option.splits)
  from assms(2)
  have "ebind (py_get (JObj kvs) ''timing'' (JObj [])) (\<lambda>timing.
        ebind (py_get timing ''IST'' (JObj [])) (\<lambda>ist_timing.
        py_get ist_timing ''date'' (JStr []))) = Inr (JStr [])"
    by (auto simp: ebind_def)
  then have p: "process_entry tbl (JObj kvs)
      = Inr (None, [Removed (english_name (JObj kvs)) (JStr [])])"
    unfolding process_entry_def using n
    by (auto simp: ebind_def split: sum.splits)
  then show ?thesis by simp
qed

theorem dateless_entry_removed_witness:
  "process_entry ist_corrections
     (JObj [(''id'', JInt 9), (''name'', JObj [(''en'', JStr ''Kamada Ekadashi'')])])
     = Inr (None, [Removed (JStr ''Kamada Ekadashi'') (JStr [])])
   \<and> process_entry ist_corrections
     (JObj [(''id'', JInt 9), (''timing'', JObj [(''PST'', JObj [])])])
     = Inr (None, [Removed (JStr []) (JStr [])])"
  using dateless_entry_removed
    [of "[(''id'', JInt 9), (''name'', JObj [(''en'', JStr ''Kamada Ekadashi'')])]"
      ist_corrections "[]" "[]" "[]"]
    dateless_entry_removed
    [of "[(''id'', JInt 9), (''timing'', JObj [(''PST'', JObj [])])]"
      ist_corrections "[]" "[]" "[]"]
  by (simp add: english_name_def)

section \<open>The corrector run on its own output\<close>

lemma kept_name:
  assumes "process_entry tbl e = Inr (Some e', ls)"
  shows "\<exists>b. dict_contains tbl (english_name e) = Inr b \<and> name_en e = Inr (english_name e)"
proof -
  from assms obtain nm b where nm: "name_en e = Inr nm" and b: "dict_contains tbl nm = Inr b"
    unfolding process_entry_def
    by (auto simp: ebind_Inr_iff split: if_splits)
  from name_en_Inr [OF nm] nm b show ?thesis by simp
qed

lemma kept_in_2026:
  assumes "process_entry tbl e = Inr (Some e', ls)"
  shows "in_2026 e \<and> e' = spec_correct tbl e"
  using process_entry_result [OF assms] by (simp split: if_splits)

text \<open>
  A retained entry, once corrected and numbered, passes the loop again unchanged when the
  table is empty.
\<close>

lemma kept_reprocess:
  assumes pe: "process_entry ist_corrections e = Inr (Some e', ls)"
  shows "\<exists>ls'. process_entry [] (with_id j e') = Inr (Some (with_id j e'), ls')"
proof -
  from kept_in_2026 [OF pe] have keep: "in_2026 e"
    and e': "e' = spec_correct ist_corrections e" by simp_all
  from kept_name [OF pe] obtain b where
    b: "dict_contains ist_corrections (english_name e) = Inr b"
    and nm: "name_en e = Inr (english_name e)"
    by (elim exE conjE)
  from in_2026_shape [OF keep] obtain kvs t i s where
    e: "e = JObj kvs" and t: "map_of kvs ''timing'' = Some (JObj t)"
    and i: "map_of t ''IST'' = Some (JObj i)" and s: "map_of i ''date'' = Some (JStr s)"
    and s26: "take 4 s = ''2026''"
    by (elim exE conjE)
  from retained_entry_fields [OF keep, of j ist_corrections] obtain kvs0 kvs' t0 t' where
    e0: "e = JObj kvs0"
    and w0: "with_id j (spec_correct ist_corrections e) = JObj kvs'"
    and t0: "map_of kvs0 ''timing'' = Some (JObj t0)"
    and t': "map_of kvs' ''timing'' = Some (JObj t')"
    and ist0: "map_of t' ''IST'' =
        (case table_entry ist_corrections (english_name e) of None \<Rightarrow> map_of t0 ''IST''
         | Some c \<Rightarrow> Some c)"
    and frame0: "\<forall>k. k \<noteq> ''timing'' \<and> k \<noteq> ''id'' \<longrightarrow> map_of kvs' k = map_of kvs0 k"
    by (elim exE conjE)
  from e e0 have k0: "kvs0 = kvs" by simp
  with t t0 have t00: "t0 = t" by simp
  from w0 e' have w: "with_id j e' = JObj kvs'" by simp
  from ist0 have ist': "map_of t' ''IST'' =
        (case table_entry ist_corrections (english_name e) of None \<Rightarrow> map_of t ''IST''
         | Some c \<Rightarrow> Some c)" unfolding t00 .
  from frame0 k0 have frame: "\<forall>k. k \<noteq> ''timing'' \<and> k \<noteq> ''id'' \<longrightarrow> map_of kvs' k = map_of kvs k"
    by simp
  have "\<exists>i' s'. map_of t' ''IST'' = Some (JObj i') \<and> map_of i' ''date'' = Some (JStr s')
      \<and> take 4 s' = ''2026''"
  proof (cases "table_entry ist_corrections (english_name e)")
    case None
    with ist' i s s26 show ?thesis by simp
  next
    case (Some c)
    then obtain k where "map_of ist_corrections k = Some c"
      by (auto simp: table_entry_def split: json.splits)
    from table_dates_2026 [OF this] Some ist' show ?thesis by auto
  qed
  then obtain i' s' where i': "map_of t' ''IST'' = Some (JObj i')"
    and s': "map_of i' ''date'' = Some (JStr s')" and s26': "take 4 s' = ''2026''"
    by (elim exE conjE)
  from frame have "map_of kvs' ''name'' = map_of kvs ''name''" by simp
  with nm e have nm': "name_en (JObj kvs') = Inr (english_name e)"
    by (simp add: name_en_def)
  from b have h: "dict_contains [] (english_name e) = Inr False"
    by (cases "english_name e") simp_all
  have "process_entry [] (JObj kvs')
      = Inr (Some (JObj kvs'), [Kept (english_name e) (JStr s')])"
    unfolding process_entry_def using s26'
    by (simp add: ebind_def t' i' s' nm' h eval_nat_numeral)
  with w show ?thesis by simp
qed

lemma filter_loop_keeps_all:
  assumes "\<forall>y\<in>set ys. \<exists>ls. process_entry tbl y = Inr (Some y, ls)"
  shows "\<exists>out'. filter_loop tbl ys acc out = (out', Inr (acc @ ys))"
  using assms
proof (induction ys arbitrary: acc out)
  case Nil
  then show ?case by simp
next
  case (Cons y ys)
  from Cons.prems obtain ls where y: "process_entry tbl y = Inr (Some y, ls)" by auto
  from Cons.prems have "\<forall>y\<in>set ys. \<exists>ls. process_entry tbl y = Inr (Some y, ls)" by simp
  from Cons.IH [OF this, of "acc @ [y]" "out @ ls"] y show ?case by simp
qed

lemma filter_loop_kept_from:
  assumes "filter_loop tbl es acc out = (out', Inr res)"
  shows "\<exists>kept. res = acc @ kept
           \<and> (\<forall>f\<in>set kept. \<exists>e ls. process_entry tbl e = Inr (Some f, ls))"
  using assms
proof (induction es arbitrary: acc out)
  case Nil
  then show ?case by simp
next
  case (Cons e es)
  show ?case
  proof (cases "process_entry tbl e")
    case (Inl err)
    with Cons.prems show ?thesis by simp
  next
    case (Inr p)
    obtain r ls where p: "p = (r, ls)" by (cases p)
    show ?thesis
    proof (cases r)
      case None
      with Cons.prems Inr p have "filter_loop tbl es acc (out @ ls) = (out', Inr res)" by simp
      from Cons.IH [OF this] show ?thesis .
    next
      case (Some f)
      with Cons.prems Inr p
      have "filter_loop tbl es (acc @ [f]) (out @ ls) = (out', Inr res)" by simp
      from Cons.IH [OF this] obtain kept where
        res: "res = (acc @ [f]) @ kept"
        and all: "\<forall>f\<in>set kept. \<exists>e ls. process_entry tbl e = Inr (Some f, ls)"
        by (elim exE conjE)
      from Inr p Some have "\<exists>e ls. process_entry tbl e = Inr (Some f, ls)" by auto
      with all have "\<forall>g\<in>set (f # kept). \<exists>e ls. process_entry tbl e = Inr (Some g, ls)"
        by simp
      moreover from res have "res = acc @ (f # kept)" by simp
      ultimately show ?thesis by (intro exI conjI)
    qed
  qed
qed

lemma setitem_same: "map_of kvs k = Some v \<Longrightarrow> py_setitem (JObj kvs) k v = Inr (JObj kvs)"
  by (simp add: dict_set_same)

lemma renumber_again: "renumber i es = Inr es' \<Longrightarrow> renumber i es' = Inr es'"
proof (induction es arbitrary: i es')
  case Nil
  then show ?case by simp
next
  case (Cons e es)
  from Cons.prems obtain e' rest where
    e': "py_setitem e ''id'' (JInt (int i)) = Inr e'" and
    rest: "renumber (Suc i) es = Inr rest" and
    es': "es' = e' # rest"
    by (auto simp: ebind_Inr_iff)
  from e' have "py_setitem e' ''id'' (JInt (int i)) = Inr e'"
    by (auto simp: py_setitem_Inr_iff dict_set_twice)
  with Cons.IH [OF rest] es' show ?case by (simp add: ebind_def)
qed

lemma set_cities_again:
  assumes "map_of kvs ''timezones''
      = Some (JObj (dict_set tzs ''IST'' (JObj (dict_set ist ''cities'' (JArr [JStr ''India''])))))"
  shows "set_cities (JObj kvs) = Inr (JObj kvs)"
  unfolding set_cities_def
  by (simp add: ebind_def assms map_of_dict_set dict_set_twice dict_set_same)

lemma prepare_shape:
  assumes "prepare d = Inr (d2, entries)"
  shows "\<exists>kvs tzs ist. d = JObj kvs
           \<and> d2 = JObj (dict_set (dict_set kvs ''date_range'' date_range_2026) ''timezones''
                  (JObj (dict_set tzs ''IST'' (JObj (dict_set ist ''cities'' (JArr [JStr ''India'']))))))"
  using assms
  by (auto simp: prepare_def set_cities_def ebind_Inr_iff py_setitem_Inr_iff py_getitem_Inr_iff)

lemma prepare_again:
  assumes "prepare d = Inr (JObj kvs2, entries)"
  shows "prepare (JObj (dict_set kvs2 ''ekadashis'' (JArr ys)))
       = Inr (JObj (dict_set kvs2 ''ekadashis'' (JArr ys)), ys)"
proof -
  from prepare_shape [OF assms] obtain kvs tzs ist where
    k2: "kvs2 = dict_set (dict_set kvs ''date_range'' date_range_2026) ''timezones''
                  (JObj (dict_set tzs ''IST'' (JObj (dict_set ist ''cities'' (JArr [JStr ''India'']))))) "
    by auto
  let ?kvs' = "dict_set kvs2 ''ekadashis'' (JArr ys)"
  have dr: "map_of ?kvs' ''date_range'' = Some date_range_2026"
    unfolding k2 by (simp add: map_of_dict_set)
  have tz: "map_of ?kvs' ''timezones''
      = Some (JObj (dict_set tzs ''IST'' (JObj (dict_set ist ''cities'' (JArr [JStr ''India''])))))"
    unfolding k2 by (simp add: map_of_dict_set)
  have ek: "map_of ?kvs' ''ekadashis'' = Some (JArr ys)"
    by (simp add: map_of_dict_set)
  have s1: "py_setitem (JObj ?kvs') ''date_range'' date_range_2026 = Inr (JObj ?kvs')"
    by (rule setitem_same [OF dr])
  have s2: "set_cities (JObj ?kvs') = Inr (JObj ?kvs')"
    by (rule set_cities_again [OF tz])
  have s3: "py_getitem (JObj ?kvs') ''ekadashis'' = Inr (JArr ys)"
    using ek by simp
  show ?thesis
    unfolding prepare_def by (simp only: s1 s2 s3 ebind_def sum.case py_iter.simps)
qed

lemma finish_again:
  assumes "renumber 1 ys = Inr ys"
  shows "finish (JObj (dict_set kvs2 ''ekadashis'' (JArr ys))) ys
       = Inr (JObj (dict_set kvs2 ''ekadashis'' (JArr ys)))"
  unfolding finish_def using assms by (simp add: ebind_def dict_set_twice)

text \<open>
  Claim C7. Whenever the corrector, with its table, succeeds on a document and writes
  \<open>d'\<close>, the same steps with an empty correction table (date-range and city-list rewrite,
  filter, renumbering) succeed on \<open>d'\<close> and write \<open>d'\<close> again, key for key and in
  the same order.
\<close>

theorem corrector_idempotent_on_output:
  assumes "fix_ekadashi_data d = (out, Inr d')"
  shows "snd (fix_ekadashi_data_with [] d') = Inr d'"
proof -
  from fix_stages [OF assms [unfolded fix_ekadashi_data_def]] obtain d2 entries out1 filtered
    where prep: "prepare d = Inr (d2, entries)"
      and loop: "filter_loop ist_corrections entries [] [] = (out1, Inr filtered)"
      and fin: "finish d2 filtered = Inr d'"
    by (elim exE conjE)
  from prepare_result [OF prep] obtain kvs2 where d2: "d2 = JObj kvs2"
    by (elim exE conjE)
  from finish_result [OF fin [unfolded d2]] obtain numbered where
    ren: "renumber 1 filtered = Inr numbered" and
    d': "d' = JObj (dict_set kvs2 ''ekadashis'' (JArr numbered))"
    by (elim exE conjE)
  from prepare_again [OF prep [unfolded d2], of numbered]
  have prep': "prepare d' = Inr (d', numbered)" unfolding d' .
  from filter_loop_kept_from [OF loop]
  have kept: "\<forall>f\<in>set filtered. \<exists>e ls. process_entry ist_corrections e = Inr (Some f, ls)"
    by simp
  from renumber_result [OF ren]
  have len: "length numbered = length filtered"
    and nth: "\<And>j. j < length filtered \<Longrightarrow> numbered ! j = with_id (1 + j) (filtered ! j)"
    by simp_all
  have again: "\<forall>y\<in>set numbered. \<exists>ls. process_entry [] y = Inr (Some y, ls)"
  proof
    fix y assume "y \<in> set numbered"
    then obtain j where j: "j < length numbered" and y: "numbered ! j = y"
      by (auto simp: in_set_conv_nth)
    from j len have "filtered ! j \<in> set filtered" by simp
    with kept obtain e ls where
      "process_entry ist_corrections e = Inr (Some (filtered ! j), ls)"
      by auto
    from kept_reprocess [OF this, of "1 + j"] nth [of j] j len y
    show "\<exists>ls. process_entry [] y = Inr (Some y, ls)" by simp
  qed
  from filter_loop_keeps_all [OF again, of "[]" "[]"] obtain out2 where
    loop': "filter_loop [] numbered [] [] = (out2, Inr numbered)"
    by auto
  from finish_again [OF renumber_again [OF ren], of kvs2]
  have fin': "finish d' numbered = Inr d'" unfolding d' .
  show ?thesis
    unfolding fix_ekadashi_data_with_def by (simp add: prep' loop' fin')
qed

theorem corrector_idempotent_on_output_witness:
  "snd (fix_ekadashi_data_with [] (sample_result sample_kept)) = Inr (sample_result sample_kept)"
  using corrector_idempotent_on_output [OF sample_run] .

section \<open>The raw converter (scripts/convert\_to\_pst\_json.py)\<close>

subsection \<open>The library calls: \<^verbatim>\<open>strptime\<close> and \<^verbatim>\<open>strftime\<close> for the script's two formats\<close>

text \<open>
  \<^verbatim>\<open>datetime.strptime(s, "%Y-%m-%d %I:%M %p")\<close> compiles the format to the regular
  expression
  \<^verbatim>\<open>(\d\d\d\d)-(1[0-2]|0[1-9]|[1-9])-(3[0-1]|[1-2]\d|0[1-9]|[1-9]| [1-9])\s+(1[0-2]|0[1-9]|[1-9]):([0-5]\d|\d)\s+(am|pm)\<close>,
  matched at the start of \<open>s\<close> without regard to case; the match must end where \<open>s\<close>
  ends. Each piece of the expression is a function from the text to the list of its
  matches (the matched text and the rest), in the order a backtracking matcher tries
  them. A character is a code point below 256: among these the digits of \<^verbatim>\<open>\d\<close> are
  \<open>0\<close> to \<open>9\<close>, and the white space of \<^verbatim>\<open>\s\<close> is the ASCII white space with the
  separators 0x1C to 0x1F, the next-line character 0x85 and the no-break space 0xA0.
\<close>

definition is_digit :: "char \<Rightarrow> bool" where
  "is_digit c = (c \<in> set ''0123456789'')"

definition is_nonzero_digit :: "char \<Rightarrow> bool" where
  "is_nonzero_digit c = (c \<in> set ''123456789'')"

definition is_space :: "char \<Rightarrow> bool" where
  "is_space c = (c \<in> set [CHR 0x09, CHR 0x0A, CHR 0x0B, CHR 0x0C, CHR 0x0D,
                           CHR 0x1C, CHR 0x1D, CHR 0x1E, CHR 0x1F, CHR 0x20,
                           CHR 0x85, CHR 0xA0])"

definition digit_val :: "char \<Rightarrow> nat" where
  "digit_val c = of_char c - 48"

definition digit_char :: "nat \<Rightarrow> char" where
  "digit_char n = char_of (48 + n)"

text \<open>\<^verbatim>\<open>int(s)\<close> on the text of a group: digits, after white space in front.\<close>

definition py_int :: "string \<Rightarrow> nat" where
  "py_int s = foldl (\<lambda>n c. 10 * n + digit_val c) 0 (dropWhile is_space s)"

type_synonym matcher = "string \<Rightarrow> (string \<times> string) list"

definition lit :: "char \<Rightarrow> string \<Rightarrow> string list" where
  "lit c s = (case s of [] \<Rightarrow> [] | a # r \<Rightarrow> if a = c then [r] else [])"

text \<open>Two characters, or one, that satisfy the given tests.\<close>

definition two_chars :: "(char \<Rightarrow> bool) \<Rightarrow> (char \<Rightarrow> bool) \<Rightarrow> matcher" where
  "two_chars p q s = (case s of a # b # r \<Rightarrow> if p a \<and> q b then [([a, b], r)] else [] | _ \<Rightarrow> [])"

definition one_char :: "(char \<Rightarrow> bool) \<Rightarrow> matcher" where
  "one_char p s = (case s of a # r \<Rightarrow> if p a then [([a], r)] else [] | _ \<Rightarrow> [])"

definition re_Y :: matcher where
  "re_Y s =
     (case s of
        a # b # c # d # r \<Rightarrow>
          if is_digit a \<and> is_digit b \<and> is_digit c \<and> is_digit d then [([a, b, c, d], r)] else []
      | _ \<Rightarrow> [])"

text \<open>\<^verbatim>\<open>1[0-2]|0[1-9]|[1-9]\<close>, for the month and for the hour.\<close>

definition re_1_to_12 :: matcher where
  "re_1_to_12 s =
     two_chars (\<lambda>a. a = CHR ''1'') (\<lambda>b. b \<in> set ''012'') s
     @ two_chars (\<lambda>a. a = CHR ''0'') is_nonzero_digit s
     @ one_char is_nonzero_digit s"

text \<open>\<^verbatim>\<open>3[0-1]|[1-2]\d|0[1-9]|[1-9]| [1-9]\<close>\<close>

definition re_d :: matcher where
  "re_d s =
     two_chars (\<lambda>a. a = CHR ''3'') (\<lambda>b. b \<in> set ''01'') s
     @ two_chars (\<lambda>a. a \<in> set ''12'') is_digit s
     @ two_chars (\<lambda>a. a = CHR ''0'') is_nonzero_digit s
     @ one_char is_nonzero_digit s
     @ two_chars (\<lambda>a. a = CHR '' '') is_nonzero_digit s"

text \<open>\<^verbatim>\<open>[0-5]\d|\d\<close>\<close>

definition re_M :: matcher where
  "re_M s = two_chars (\<lambda>a. a \<in> set ''012345'') is_digit s @ one_char is_digit s"

text \<open>\<^verbatim>\<open>\s+\<close>: the longest run of white space first, then the shorter ones.\<close>

definition re_ws :: matcher where
  "re_ws s =
     map (\<lambda>k. (take k s, drop k s)) (rev [1..<Suc (length (takeWhile is_space s))])"

text \<open>\<^verbatim>\<open>am|pm\<close>, in either case.\<close>

definition re_p :: matcher where
  "re_p s =
     two_chars (\<lambda>a. a \<in> set ''aA'') (\<lambda>b. b \<in> set ''mM'') s
     @ two_chars (\<lambda>a. a \<in> set ''pP'') (\<lambda>b. b \<in> set ''mM'') s"

text \<open>A group followed by a literal character.\<close>

definition then_lit :: "matcher \<Rightarrow> char \<Rightarrow> matcher" where
  "then_lit g c s = concat (map (\<lambda>(x, r). map (\<lambda>r'. (x, r')) (lit c r)) (g s))"

text \<open>A group followed by \<^verbatim>\<open>\s+\<close>.\<close>

definition then_ws :: "matcher \<Rightarrow> matcher" where
  "then_ws g s = concat (map (\<lambda>(x, r). map (\<lambda>(w, r'). (x, r')) (re_ws r)) (g s))"

record fields =
  f_Y :: string
  f_m :: string
  f_d :: string
  f_I :: string
  f_M :: string
  f_p :: string

text \<open>All the matches of the whole expression, the one the matcher finds first in front.\<close>

definition format_matches :: "string \<Rightarrow> (fields \<times> string) list" where
  "format_matches s =
     concat (map (\<lambda>(Y, r1).
     concat (map (\<lambda>(m, r2).
     concat (map (\<lambda>(d, r3).
     concat (map (\<lambda>(I, r4).
     concat (map (\<lambda>(M, r5).
     map (\<lambda>(p, r6). (\<lparr>f_Y = Y, f_m = m, f_d = d, f_I = I, f_M = M, f_p = p\<rparr>, r6))
       (re_p r5))
       (then_ws re_M r4)))
       (then_lit re_1_to_12 CHR '':'' r3)))
       (then_ws re_d r2)))
       (then_lit re_1_to_12 CHR ''-'' r1)))
       (then_lit re_Y CHR ''-'' s))"

definition is_leap :: "nat \<Rightarrow> bool" where
  "is_leap y = (y mod 4 = 0 \<and> (y mod 100 \<noteq> 0 \<or> y mod 400 = 0))"

definition days_in_month :: "nat \<Rightarrow> nat \<Rightarrow> nat" where
  "days_in_month y m =
     (if m = 2 then (if is_leap y then 29 else 28)
      else if m \<in> {4, 6, 9, 11} then 30 else 31)"

text \<open>
  The 24-hour value of \<^verbatim>\<open>%I\<close> with \<^verbatim>\<open>%p\<close>: 12 AM is 0, and PM adds 12 except to 12.
\<close>

definition hour_24 :: "nat \<Rightarrow> string \<Rightarrow> nat" where
  "hour_24 h p =
     (if hd p \<in> set ''aA'' then (if h = 12 then 0 else h)
      else (if h = 12 then 12 else h + 12))"

text \<open>
  The parse: a ValueError when the text does not match, when text remains after the
  match, or when the date does not exist (year 0, or a day past the end of the month).
\<close>

definition strptime :: "string \<Rightarrow> error + datetime" where
  "strptime s =
     (case format_matches s of
        [] \<Rightarrow> Inl ValueError
      | (f, rest) # others \<Rightarrow>
          if rest \<noteq> [] then Inl ValueError
          else
            let y = py_int (f_Y f); mo = py_int (f_m f); d = py_int (f_d f) in
            if y < 1 \<or> days_in_month y mo < d then Inl ValueError
            else Inr (mk_datetime y mo d (hour_24 (py_int (f_I f)) (f_p f)) (py_int (f_M f))))"

text \<open>Decimal notation, and padding with zeros on the left as \<^verbatim>\<open>%02d\<close> does.\<close>

function show_nat :: "nat \<Rightarrow> string" where
  "show_nat n = (if n < 10 then [digit_char n] else show_nat (n div 10) @ [digit_char (n mod 10)])"
  by pat_completeness auto
termination
  by (relation "measure id") auto

declare show_nat.simps [simp del]

definition zfill :: "nat \<Rightarrow> string \<Rightarrow> string" where
  "zfill w s = replicate (w - length s) CHR ''0'' @ s"

text \<open>
  \<^verbatim>\<open>dt.strftime(f"%Y-%m-%dT%H:%M:%S{offset}")\<close>: the offset is part of the format, and
  holds no directive. The month, day, hour, minute and second are written with two
  digits; the year is written by the C library's \<^verbatim>\<open>%Y\<close>, which does not pad: the year
  999 is written \<open>999\<close>.
\<close>

definition strftime :: "datetime \<Rightarrow> string \<Rightarrow> string" where
  "strftime dt offset =
     show_nat (year dt) @ ''-'' @ zfill 2 (show_nat (month dt)) @ ''-''
     @ zfill 2 (show_nat (day dt)) @ ''T'' @ zfill 2 (show_nat (hour dt)) @ '':''
     @ zfill 2 (show_nat (minute dt)) @ '':'' @ zfill 2 (show_nat (second dt)) @ offset"

subsection \<open>The script's functions\<close>

text \<open>The truth value Python gives a JSON value in \<^verbatim>\<open>not x\<close>.\<close>

fun py_truthy :: "json \<Rightarrow> bool" where
  "py_truthy JNull = False"
| "py_truthy (JBool b) = b"
| "py_truthy (JInt i) = (i \<noteq> 0)"
| "py_truthy (JFloat r) = (r \<noteq> 0)"
| "py_truthy (JStr s) = (s \<noteq> [])"
| "py_truthy (JArr xs) = (xs \<noteq> [])"
| "py_truthy (JObj kvs) = (kvs \<noteq> [])"

text \<open>
  The text an f-string puts for a value: a string as it is; for any other value what
  Python's \<^verbatim>\<open>str\<close> gives, which the model takes as the parameter \<open>str_of\<close>.
\<close>

definition py_format :: "(json \<Rightarrow> string) \<Rightarrow> json \<Rightarrow> string" where
  "py_format str_of v = (case v of JStr s \<Rightarrow> s | _ \<Rightarrow> str_of v)"

text \<open>
  \<^verbatim>\<open>convert_time_to_iso(date_str, time_str)\<close>; the third parameter of the source,
  \<^verbatim>\<open>is_end_time\<close>, is never read. \<^verbatim>\<open>None\<close> is \<open>JNull\<close>. The \<^verbatim>\<open>except\<close> clause catches a
  ValueError and nothing else.
\<close>

definition convert_time_to_iso :: "(json \<Rightarrow> string) \<Rightarrow> json \<Rightarrow> json \<Rightarrow> error + json" where
  "convert_time_to_iso str_of date_str time_str =
     (if \<not> py_truthy date_str \<or> \<not> py_truthy time_str then Inr JNull
      else
        (case strptime (py_format str_of date_str @ '' '' @ py_format str_of time_str) of
           Inl err \<Rightarrow> (if err = ValueError then Inr JNull else Inl err)
         | Inr dt \<Rightarrow> Inr (JStr (strftime dt (get_pst_offset dt)))))"

text \<open>The body of the loop of \<^verbatim>\<open>main\<close>, for the entry at zero-based position \<open>idx\<close>.\<close>

definition convert_entry :: "(json \<Rightarrow> string) \<Rightarrow> nat \<Rightarrow> json \<Rightarrow> error + json" where
  "convert_entry str_of idx item =
     ebind (py_getitem item ''fasting_date'') (\<lambda>fasting_date.
     ebind (py_getitem item ''parana_date'') (\<lambda>parana_date.
     ebind (py_getitem item ''parana_start'') (\<lambda>parana_start.
     ebind (convert_time_to_iso str_of parana_date parana_start) (\<lambda>parana_start_iso.
     ebind (py_getitem item ''parana_end'') (\<lambda>parana_end.
     ebind (convert_time_to_iso str_of parana_date parana_end) (\<lambda>parana_end_iso.
     ebind (py_getitem item ''name'') (\<lambda>name.
       Inr (JObj [(''id'', JInt (int idx + 1)),
                  (''name'', JObj [(''en'', name)]),
                  (''timing'',
                     JObj [(''PST'',
                       JObj [(''date'', fasting_date),
                             (''parana_start'', parana_start_iso),
                             (''parana_end'', parana_end_iso)])])]))))))))"

fun convert_loop :: "(json \<Rightarrow> string) \<Rightarrow> nat \<Rightarrow> json list \<Rightarrow> json list \<Rightarrow> error + json list" where
  "convert_loop str_of idx [] final_ekadashis = Inr final_ekadashis"
| "convert_loop str_of idx (item # items) final_ekadashis =
     ebind (convert_entry str_of idx item) (\<lambda>ekadashi_entry.
       convert_loop str_of (Suc idx) items (final_ekadashis @ [ekadashi_entry]))"

text \<open>
  \<^verbatim>\<open>main\<close> on the loaded raw data, with the run's date \<open>today\<close>: the document written and
  the line printed, or the exception that ends the run before anything is written.
\<close>

definition main :: "(json \<Rightarrow> string) \<Rightarrow> string \<Rightarrow> json \<Rightarrow> error + (json \<times> string list)" where
  "main str_of today raw_data =
     ebind (py_iter raw_data) (\<lambda>items.
     ebind (convert_loop str_of 0 items []) (\<lambda>final_ekadashis.
       Inr (JObj [(''version'', JStr ''1.5''),
                  (''generated'', JStr today),
                  (''source'', JStr ''Drik Panchang (San Jose)''),
                  (''year'', JInt 2026),
                  (''notes'', JStr ''Parana times for San Jose, CA. Includes DST adjustments.''),
                  (''ekadashis'', JArr final_ekadashis)],
            [''Created assets/ekadashi_data_pst_2026.json''])))"

section \<open>Properties of the raw converter\<close>

lemmas regex_defs =
  format_matches_def then_lit_def then_ws_def re_Y_def re_1_to_12_def re_d_def re_M_def
  re_ws_def re_p_def two_chars_def one_char_def lit_def is_digit_def is_nonzero_digit_def
  is_space_def

lemmas strptime_defs =
  strptime_def regex_defs py_int_def digit_val_def hour_24_def days_in_month_def is_leap_def

lemma strptime_raises_ValueError: "strptime s = Inl err \<Longrightarrow> err = ValueError"
  unfolding strptime_def
  by (auto simp: Let_def split: list.splits prod.splits if_splits)

text \<open>The result of the conversion as a value: a timestamp, or \<open>JNull\<close> for no timestamp.\<close>

definition iso_or_null :: "(json \<Rightarrow> string) \<Rightarrow> json \<Rightarrow> json \<Rightarrow> json" where
  "iso_or_null str_of d t =
     (if py_truthy d \<and> py_truthy t then
        (case strptime (py_format str_of d @ '' '' @ py_format str_of t) of
           Inl err \<Rightarrow> JNull
         | Inr dt \<Rightarrow> JStr (strftime dt (get_pst_offset dt)))
      else JNull)"

lemma convert_total: "convert_time_to_iso str_of d t = Inr (iso_or_null str_of d t)"
proof (cases "strptime (py_format str_of d @ '' '' @ py_format str_of t)")
  case (Inl err)
  with strptime_raises_ValueError [OF Inl] show ?thesis
    by (simp add: convert_time_to_iso_def iso_or_null_def)
next
  case (Inr dt)
  then show ?thesis
    by (simp add: convert_time_to_iso_def iso_or_null_def)
qed

text \<open>
  Claim C5. For every pair of inputs (strings, or any other JSON value) the converter
  returns a value and raises nothing. If the date or the time is empty or absent (an
  empty string, \<^verbatim>\<open>None\<close>) the value is \<open>JNull\<close>, the explicit empty result; if the
  combined text fails to parse, the value is \<open>JNull\<close> as well; and if it parses, the
  value is a string, which differs from \<open>JNull\<close>.
\<close>

theorem convert_never_raises:
  "(\<exists>r. convert_time_to_iso str_of d t = Inr r)
   \<and> (\<not> py_truthy d \<or> \<not> py_truthy t \<longrightarrow> convert_time_to_iso str_of d t = Inr JNull)
   \<and> convert_time_to_iso str_of (JStr []) t = Inr JNull
   \<and> convert_time_to_iso str_of d (JStr []) = Inr JNull
   \<and> convert_time_to_iso str_of JNull t = Inr JNull
   \<and> convert_time_to_iso str_of d JNull = Inr JNull
   \<and> (\<forall>err. strptime (py_format str_of d @ '' '' @ py_format str_of t) = Inl err
         \<longrightarrow> convert_time_to_iso str_of d t = Inr JNull)
   \<and> (\<forall>dt. py_truthy d \<and> py_truthy t
           \<and> strptime (py_format str_of d @ '' '' @ py_format str_of t) = Inr dt
         \<longrightarrow> convert_time_to_iso str_of d t = Inr (JStr (strftime dt (get_pst_offset dt)))
             \<and> convert_time_to_iso str_of d t \<noteq> Inr JNull)"
  unfolding convert_total by (auto simp: iso_or_null_def)

theorem convert_never_raises_witness:
  "convert_time_to_iso (\<lambda>v. []) (JStr ''2026-06-15'') (JStr []) = Inr JNull
   \<and> convert_time_to_iso (\<lambda>v. []) (JStr ''2026-06-15'') (JStr ''25:35 AM'') = Inr JNull
   \<and> convert_time_to_iso (\<lambda>v. []) (JStr ''2026-06-15'') (JStr ''05:35 AM'')
        = Inr (JStr ''2026-06-15T05:35:00-07:00'')"
proof -
  have a: "\<not> py_truthy (JStr ''2026-06-15'') \<or> \<not> py_truthy (JStr [])" by simp
  have b: "strptime (py_format (\<lambda>v. []) (JStr ''2026-06-15'') @ '' ''
        @ py_format (\<lambda>v. []) (JStr ''25:35 AM'')) = Inl ValueError"
    by (simp add: py_format_def strptime_defs)
  have c: "py_truthy (JStr ''2026-06-15'') \<and> py_truthy (JStr ''05:35 AM'')
      \<and> strptime (py_format (\<lambda>v. []) (JStr ''2026-06-15'') @ '' ''
        @ py_format (\<lambda>v. []) (JStr ''05:35 AM'')) = Inr (mk_datetime 2026 6 15 5 35)"
    by (simp add: py_format_def strptime_defs)
  have s: "strftime (mk_datetime 2026 6 15 5 35) (get_pst_offset (mk_datetime 2026 6 15 5 35))
      = ''2026-06-15T05:35:00-07:00''"
    by code_simp
  note T = convert_never_raises [of "\<lambda>v. []" "JStr ''2026-06-15''"]
  from T [of "JStr []", THEN conjunct2, THEN conjunct1, rule_format, OF a]
    T [of "JStr ''25:35 AM''", THEN conjunct2, THEN conjunct2, THEN conjunct2, THEN conjunct2,
      THEN conjunct2, THEN conjunct2, THEN conjunct1, rule_format, OF b]
    T [of "JStr ''05:35 AM''", THEN conjunct2, THEN conjunct2, THEN conjunct2, THEN conjunct2,
      THEN conjunct2, THEN conjunct2, THEN conjunct2, rule_format, OF c, THEN conjunct1]
  show ?thesis unfolding s by (intro conjI)
qed

lemma convert_entry_id:
  "convert_entry str_of idx item = Inr e \<Longrightarrow> obj_field e ''id'' = Some (JInt (int idx + 1))"
  by (auto simp: convert_entry_def ebind_Inr_iff)

lemma convert_loop_result:
  "convert_loop str_of idx items final = Inr res \<Longrightarrow>
     \<exists>es. res = final @ es \<and> length es = length items
        \<and> (\<forall>i<length items. convert_entry str_of (idx + i) (items ! i) = Inr (es ! i))"
proof (induction items arbitrary: idx final)
  case Nil
  then show ?case by simp
next
  case (Cons item items)
  from Cons.prems obtain e where
    e: "convert_entry str_of idx item = Inr e" and
    rest: "convert_loop str_of (Suc idx) items (final @ [e]) = Inr res"
    by (auto simp: ebind_Inr_iff)
  from Cons.IH [OF rest] obtain es where
    res: "res = (final @ [e]) @ es" and len: "length es = length items"
    and nth: "\<forall>i<length items. convert_entry str_of (Suc idx + i) (items ! i) = Inr (es ! i)"
    by (elim exE conjE)
  have "\<forall>i<length (item # items).
      convert_entry str_of (idx + i) ((item # items) ! i) = Inr ((e # es) ! i)"
  proof (intro allI impI)
    fix i assume "i < length (item # items)"
    then show "convert_entry str_of (idx + i) ((item # items) ! i) = Inr ((e # es) ! i)"
      using e nth by (cases i) simp_all
  qed
  moreover from res have "res = final @ (e # es)" by simp
  moreover from len have "length (e # es) = length (item # items)" by simp
  ultimately show ?case by (intro exI conjI)
qed

lemma main_result:
  assumes "main str_of today raw_data = Inr (doc, out)"
  shows "\<exists>items es. py_iter raw_data = Inr items
           \<and> py_getitem doc ''ekadashis'' = Inr (JArr es) \<and> length es = length items
           \<and> (\<forall>i<length items. convert_entry str_of i (items ! i) = Inr (es ! i))"
proof -
  from assms obtain items final where
    it: "py_iter raw_data = Inr items" and
    loop: "convert_loop str_of 0 items [] = Inr final" and
    doc: "py_getitem doc ''ekadashis'' = Inr (JArr final)"
    by (auto simp: main_def ebind_Inr_iff)
  from convert_loop_result [OF loop] have "length final = length items"
    and "\<forall>i<length items. convert_entry str_of i (items ! i) = Inr (final ! i)"
    by simp_all
  with it doc show ?thesis by (intro exI conjI)
qed

subsection \<open>Sample raw data\<close>

definition raw_item :: "string \<Rightarrow> string \<Rightarrow> json \<Rightarrow> json \<Rightarrow> json \<Rightarrow> json" where
  "raw_item n fd pd ps pe =
     JObj [(''name'', JStr n), (''fasting_date'', JStr fd), (''parana_date'', pd),
           (''parana_start'', ps), (''parana_end'', pe)]"

definition sample_raw :: "json list" where
  "sample_raw =
     [raw_item ''Shattila Ekadashi'' ''2026-01-13'' (JStr ''2026-01-14'')
        (JStr ''07:21 AM'') (JStr ''09:26 AM''),
      raw_item ''Apara Ekadashi'' ''2026-05-12'' (JStr ''2026-05-13'')
        (JStr ''5.58 AM'') (JStr ''08:24 AM''),
      raw_item ''Devutthana Ekadashi'' ''2026-11-20'' (JStr ''2026-11-21'')
        JNull (JStr ''01:05 PM'')]"

definition pst_entry :: "int \<Rightarrow> string \<Rightarrow> string \<Rightarrow> json \<Rightarrow> json \<Rightarrow> json" where
  "pst_entry i n fd ps pe =
     JObj [(''id'', JInt i), (''name'', JObj [(''en'', JStr n)]),
           (''timing'', JObj [(''PST'', JObj [(''date'', JStr fd), (''parana_start'', ps),
                                              (''parana_end'', pe)])])]"

subsection \<open>Raw entries with their five keys\<close>

text \<open>
  A raw entry that has the five keys the loop reads, whatever their values; the value
  under a key; and the entry the loop builds from such a raw entry, field by field.
\<close>

definition has_raw_fields :: "json \<Rightarrow> bool" where
  "has_raw_fields item =
     list_all (\<lambda>k. obj_field item k \<noteq> None)
       [''name'', ''fasting_date'', ''parana_date'', ''parana_start'', ''parana_end'']"

definition field :: "json \<Rightarrow> string \<Rightarrow> json" where
  "field item k = (case obj_field item k of None \<Rightarrow> JNull | Some v \<Rightarrow> v)"

definition built_entry :: "(json \<Rightarrow> string) \<Rightarrow> nat \<Rightarrow> json \<Rightarrow> json" where
  "built_entry str_of idx item =
     JObj [(''id'', JInt (int idx + 1)),
           (''name'', JObj [(''en'', field item ''name'')]),
           (''timing'',
              JObj [(''PST'',
                JObj [(''date'', field item ''fasting_date''),
                      (''parana_start'',
                         iso_or_null str_of (field item ''parana_date'') (field item ''parana_start'')),
                      (''parana_end'',
                         iso_or_null str_of (field item ''parana_date'') (field item ''parana_end''))])])]"

lemma convert_entry_total:
  assumes "has_raw_fields item"
  shows "convert_entry str_of idx item = Inr (built_entry str_of idx item)"
proof -
  from assms obtain kvs where item: "item = JObj kvs"
    by (cases item) (simp_all add: has_raw_fields_def)
  from assms item obtain nm fd pd ps pe where
    "map_of kvs ''name'' = Some nm" "map_of kvs ''fasting_date'' = Some fd"
    "map_of kvs ''parana_date'' = Some pd" "map_of kvs ''parana_start'' = Some ps"
    "map_of kvs ''parana_end'' = Some pe"
    by (auto simp: has_raw_fields_def)
  then show ?thesis
    by (simp add: convert_entry_def built_entry_def field_def item ebind_def convert_total)
qed

text \<open>The loop body raises for every other entry: a key is absent, or the entry is no dict.\<close>

lemma convert_entry_needs_fields:
  assumes "convert_entry str_of idx item = Inr e"
  shows "has_raw_fields item"
proof -
  from assms obtain fd pd ps pe nm where
    "py_getitem item ''fasting_date'' = Inr fd" "py_getitem item ''parana_date'' = Inr pd"
    "py_getitem item ''parana_start'' = Inr ps" "py_getitem item ''parana_end'' = Inr pe"
    "py_getitem item ''name'' = Inr nm"
    unfolding convert_entry_def ebind_Inr_iff by (elim exE conjE)
  then show ?thesis
    unfolding py_getitem_Inr_iff by (auto simp: has_raw_fields_def)
qed

lemma convert_loop_total:
  assumes "\<forall>item\<in>set items. has_raw_fields item"
  shows "\<exists>es. convert_loop str_of idx items final = Inr (final @ es)
           \<and> length es = length items
           \<and> (\<forall>i<length items. es ! i = built_entry str_of (idx + i) (items ! i))"
  using assms
proof (induction items arbitrary: idx final)
  case Nil
  then show ?case by simp
next
  case (Cons item items)
  from Cons.prems have h: "has_raw_fields item"
    and t: "\<forall>item\<in>set items. has_raw_fields item" by simp_all
  from Cons.IH [OF t, of "Suc idx" "final @ [built_entry str_of idx item]"] obtain es where
    loop: "convert_loop str_of (Suc idx) items (final @ [built_entry str_of idx item])
        = Inr ((final @ [built_entry str_of idx item]) @ es)"
    and len: "length es = length items"
    and nth: "\<forall>i<length items. es ! i = built_entry str_of (Suc idx + i) (items ! i)"
    by (elim exE conjE)
  let ?es = "built_entry str_of idx item # es"
  have a: "convert_loop str_of idx (item # items) final = Inr (final @ ?es)"
    using loop by (simp add: convert_entry_total [OF h] ebind_def)
  have b: "length ?es = length (item # items)" using len by simp
  have c: "\<forall>i<length (item # items). ?es ! i = built_entry str_of (idx + i) ((item # items) ! i)"
  proof (intro allI impI)
    fix i assume "i < length (item # items)"
    then show "?es ! i = built_entry str_of (idx + i) ((item # items) ! i)"
      using nth by (cases i) simp_all
  qed
  from a b c show ?case by (intro exI conjI)
qed

lemma built_entry_id: "obj_field (built_entry str_of idx item) ''id'' = Some (JInt (int idx + 1))"
  by (simp add: built_entry_def)

lemma ids_from_one:
  assumes "\<forall>i<length es. obj_field (es ! i) ''id'' = Some (JInt (int i + 1))"
  shows "map (\<lambda>e. obj_field e ''id'') es = map (\<lambda>i. Some (JInt (int i))) [1..<Suc (length es)]"
proof (rule nth_equalityI)
  show "length (map (\<lambda>e. obj_field e ''id'') es)
      = length (map (\<lambda>i. Some (JInt (int i))) [1..<Suc (length es)])"
    by (simp del: upt_Suc)
next
  fix i assume "i < length (map (\<lambda>e. obj_field e ''id'') es)"
  then have i: "i < length es" by simp
  then have "[1..<Suc (length es)] ! i = Suc i"
    by (simp add: nth_upt del: upt_Suc)
  with assms i
  show "map (\<lambda>e. obj_field e ''id'') es ! i
      = map (\<lambda>i. Some (JInt (int i))) [1..<Suc (length es)] ! i"
    by (simp del: upt_Suc add: add.commute)
qed

lemma main_total:
  assumes it: "py_iter raw_data = Inr items"
    and h: "\<forall>item\<in>set items. has_raw_fields item"
  shows "\<exists>doc out es. main str_of today raw_data = Inr (doc, out)
           \<and> py_getitem doc ''ekadashis'' = Inr (JArr es)
           \<and> length es = length items
           \<and> (\<forall>i<length items. es ! i = built_entry str_of i (items ! i))"
proof -
  from convert_loop_total [OF h, of str_of 0 "[]"] obtain es where
    loop: "convert_loop str_of 0 items [] = Inr es" and len: "length es = length items"
    and nth: "\<forall>i<length items. es ! i = built_entry str_of i (items ! i)"
    by auto
  let ?doc = "JObj [(''version'', JStr ''1.5''), (''generated'', JStr today),
        (''source'', JStr ''Drik Panchang (San Jose)''), (''year'', JInt 2026),
        (''notes'', JStr ''Parana times for San Jose, CA. Includes DST adjustments.''),
        (''ekadashis'', JArr es)]"
  have m: "main str_of today raw_data
      = Inr (?doc, [''Created assets/ekadashi_data_pst_2026.json''])"
    using loop it by (simp add: main_def ebind_def)
  have g: "py_getitem ?doc ''ekadashis'' = Inr (JArr es)" by simp
  from m g len nth show ?thesis by (intro exI conjI)
qed

lemma main_needs_fields:
  assumes m: "main str_of today raw_data = Inr (doc, out)"
    and it: "py_iter raw_data = Inr items"
  shows "list_all has_raw_fields items"
proof -
  from main_result [OF m] it obtain es where
    nth: "\<forall>i<length items. convert_entry str_of i (items ! i) = Inr (es ! i)"
    by auto
  have "has_raw_fields (items ! i)" if "i < length items" for i
    using nth that convert_entry_needs_fields by blast
  then show ?thesis by (simp add: list_all_length)
qed

text \<open>
  Claim C8. Let the raw data iterate as the \<open>N\<close> entries \<open>items\<close>. If every entry has its
  five keys, the raw converter succeeds and the document it writes holds \<open>N\<close> entries: the
  entry at zero-based position \<open>i\<close> is the one the loop builds from the \<open>i\<close>-th input entry,
  and its identifier is \<open>i + 1\<close>; so the identifiers, in order, are 1, 2, ..., N. If some
  entry lacks a key, the run ends with an exception and writes no document.
\<close>

theorem raw_identifiers_sequential:
  assumes "py_iter raw_data = Inr items"
  shows "(list_all has_raw_fields items \<longrightarrow>
            (\<exists>doc out es. main str_of today raw_data = Inr (doc, out)
               \<and> py_getitem doc ''ekadashis'' = Inr (JArr es)
               \<and> length es = length items
               \<and> (\<forall>i<length items. convert_entry str_of i (items ! i) = Inr (es ! i)
                     \<and> es ! i = built_entry str_of i (items ! i)
                     \<and> obj_field (es ! i) ''id'' = Some (JInt (int i + 1)))
               \<and> map (\<lambda>e. obj_field e ''id'') es
                     = map (\<lambda>i. Some (JInt (int i))) [1..<Suc (length items)]))
       \<and> (\<not> list_all has_raw_fields items \<longrightarrow> (\<exists>err. main str_of today raw_data = Inl err))"
proof (intro conjI impI)
  assume h: "list_all has_raw_fields items"
  then have h': "\<forall>item\<in>set items. has_raw_fields item" by (simp add: list_all_iff)
  from main_total [OF assms h', of str_of today] obtain doc out es where
    m: "main str_of today raw_data = Inr (doc, out)"
    and g: "py_getitem doc ''ekadashis'' = Inr (JArr es)"
    and len: "length es = length items"
    and nth: "\<forall>i<length items. es ! i = built_entry str_of i (items ! i)"
    by (elim exE conjE)
  have fields: "has_raw_fields (items ! i)" if "i < length items" for i
    using h' that by simp
  have ids: "\<forall>i<length es. obj_field (es ! i) ''id'' = Some (JInt (int i + 1))"
    using nth len by (simp add: built_entry_id)
  have each: "\<forall>i<length items. convert_entry str_of i (items ! i) = Inr (es ! i)
      \<and> es ! i = built_entry str_of i (items ! i)
      \<and> obj_field (es ! i) ''id'' = Some (JInt (int i + 1))"
    using nth ids len fields by (simp add: convert_entry_total)
  have "map (\<lambda>e. obj_field e ''id'') es
      = map (\<lambda>i. Some (JInt (int i))) [1..<Suc (length items)]"
    using ids_from_one [OF ids] unfolding len .
  with m g len each
  show "\<exists>doc out es. main str_of today raw_data = Inr (doc, out)
      \<and> py_getitem doc ''ekadashis'' = Inr (JArr es)
      \<and> length es = length items
      \<and> (\<forall>i<length items. convert_entry str_of i (items ! i) = Inr (es ! i)
            \<and> es ! i = built_entry str_of i (items ! i)
            \<and> obj_field (es ! i) ''id'' = Some (JInt (int i + 1)))
      \<and> map (\<lambda>e. obj_field e ''id'') es
            = map (\<lambda>i. Some (JInt (int i))) [1..<Suc (length items)]"
    by (intro exI conjI)
next
  assume n: "\<not> list_all has_raw_fields items"
  show "\<exists>err. main str_of today raw_data = Inl err"
  proof (cases "main str_of today raw_data")
    case (Inl err)
    then show ?thesis by simp
  next
    case (Inr r)
    then have "main str_of today raw_data = Inr (fst r, snd r)" by simp
    from main_needs_fields [OF this assms] n show ?thesis by simp
  qed
qed

theorem raw_identifiers_sequential_witness:
  "\<exists>doc out es. main (\<lambda>v. []) ''2026-11-04'' (JArr sample_raw) = Inr (doc, out)
      \<and> py_getitem doc ''ekadashis'' = Inr (JArr es)
      \<and> length es = 3
      \<and> map (\<lambda>e. obj_field e ''id'') es = [Some (JInt 1), Some (JInt 2), Some (JInt 3)]"
proof -
  have i: "py_iter (JArr sample_raw) = Inr sample_raw" by simp
  have h: "list_all has_raw_fields sample_raw"
    by (simp add: sample_raw_def raw_item_def has_raw_fields_def)
  have l: "length sample_raw = 3" by (simp add: sample_raw_def)
  from raw_identifiers_sequential [OF i, of "\<lambda>v. []" "''2026-11-04''", THEN conjunct1,
      rule_format, OF h]
  obtain doc out es where
    "main (\<lambda>v. []) ''2026-11-04'' (JArr sample_raw) = Inr (doc, out)"
    "py_getitem doc ''ekadashis'' = Inr (JArr es)"
    "length es = length sample_raw"
    "map (\<lambda>e. obj_field e ''id'') es
       = map (\<lambda>i. Some (JInt (int i))) [1..<Suc (length sample_raw)]"
    by (elim exE conjE)
  then show ?thesis unfolding l by (intro exI conjI) (simp_all add: upt_rec)
qed

subsection \<open>Bad and missing fields\<close>

text \<open>
  Claim C6. Let every raw entry have its five keys. Then the run succeeds whatever the
  values under the keys are, and writes one entry for each raw entry. In the entry built
  from a raw entry the fasting date and the name are copied, and each of the two
  timestamps is computed from its own time string alone: it is \<open>JNull\<close>, the no-value
  result, when the date or that time string is empty or absent or when their combination
  does not parse. A bad field therefore changes neither the other fields of its entry nor
  any other entry.
\<close>
theorem raw_bad_field_is_not_fatal:
  assumes "\<forall>item\<in>set items. has_raw_fields item"
  shows "\<exists>doc out es. main str_of today (JArr items) = Inr (doc, out)
           \<and> py_getitem doc ''ekadashis'' = Inr (JArr es)
           \<and> length es = length items
           \<and> (\<forall>i<length items. es ! i = built_entry str_of i (items ! i))
           \<and> (\<forall>d t. \<not> py_truthy d \<or> \<not> py_truthy t
                  \<or> (\<exists>err. strptime (py_format str_of d @ '' '' @ py_format str_of t) = Inl err)
                \<longrightarrow> iso_or_null str_of d t = JNull)"
proof -
  from convert_loop_total [OF assms, of str_of 0 "[]"] obtain es where
    loop: "convert_loop str_of 0 items [] = Inr es" and len: "length es = length items"
    and nth: "\<forall>i<length items. es ! i = built_entry str_of i (items ! i)"
    by auto
  let ?doc = "JObj [(''version'', JStr ''1.5''), (''generated'', JStr today),
        (''source'', JStr ''Drik Panchang (San Jose)''), (''year'', JInt 2026),
        (''notes'', JStr ''Parana times for San Jose, CA. Includes DST adjustments.''),
        (''ekadashis'', JArr es)]"
  have m: "main str_of today (JArr items)
      = Inr (?doc, [''Created assets/ekadashi_data_pst_2026.json''])"
    using loop by (simp add: main_def ebind_def)
  have g: "py_getitem ?doc ''ekadashis'' = Inr (JArr es)" by simp
  have n: "\<forall>d t. \<not> py_truthy d \<or> \<not> py_truthy t
          \<or> (\<exists>err. strptime (py_format str_of d @ '' '' @ py_format str_of t) = Inl err)
        \<longrightarrow> iso_or_null str_of d t = JNull"
    by (auto simp: iso_or_null_def)
  from m g len nth n show ?thesis by (intro exI conjI)
qed

theorem raw_bad_field_is_not_fatal_witness:
  "\<exists>doc out es. main (\<lambda>v. []) ''2026-11-04'' (JArr sample_raw) = Inr (doc, out)
      \<and> py_getitem doc ''ekadashis'' = Inr (JArr es)
      \<and> length es = 3
      \<and> es ! 1 = pst_entry 2 ''Apara Ekadashi'' ''2026-05-12''
                   JNull (JStr ''2026-05-13T08:24:00-07:00'')
      \<and> es ! 2 = pst_entry 3 ''Devutthana Ekadashi'' ''2026-11-20''
                   JNull (JStr ''2026-11-21T13:05:00-08:00'')"
proof -
  have h: "\<forall>item\<in>set sample_raw. has_raw_fields item"
    by (simp add: sample_raw_def raw_item_def has_raw_fields_def)
  have l: "length sample_raw = 3" by (simp add: sample_raw_def)
  have b1: "built_entry (\<lambda>v. []) 1 (sample_raw ! 1)
      = pst_entry 2 ''Apara Ekadashi'' ''2026-05-12'' JNull (JStr ''2026-05-13T08:24:00-07:00'')"
    by code_simp
  have b2: "built_entry (\<lambda>v. []) 2 (sample_raw ! 2)
      = pst_entry 3 ''Devutthana Ekadashi'' ''2026-11-20''
          JNull (JStr ''2026-11-21T13:05:00-08:00'')"
    by code_simp
  from raw_bad_field_is_not_fatal [OF h, of "\<lambda>v. []" "''2026-11-04''"] obtain doc out es where
    m: "main (\<lambda>v. []) ''2026-11-04'' (JArr sample_raw) = Inr (doc, out)"
    and g: "py_getitem doc ''ekadashis'' = Inr (JArr es)"
    and len: "length es = length sample_raw"
    and nth: "\<forall>i<length sample_raw. es ! i = built_entry (\<lambda>v. []) i (sample_raw ! i)"
    by (elim exE conjE)
  from nth l have "es ! 1 = built_entry (\<lambda>v. []) 1 (sample_raw ! 1)"
    and "es ! 2 = built_entry (\<lambda>v. []) 2 (sample_raw ! 2)" by simp_all
  with m g len l b1 b2 show ?thesis by (intro exI conjI) simp_all
qed

text \<open>
  A key that is absent, unlike a value that is empty, ends the run: the specification
  lists it among the structural failures.
\<close>

lemma raw_missing_key_is_fatal:
  "main str_of today
     (JArr [JObj [(''name'', JStr ''Apara Ekadashi''), (''fasting_date'', JStr ''2026-05-12''),
                  (''parana_date'', JStr ''2026-05-13''), (''parana_end'', JStr ''08:24 AM'')]])
     = Inl KeyError"
  by (simp add: main_def convert_entry_def ebind_def)

subsection \<open>Digits: reading and writing decimal numbers\<close>

lemma is_digit_cases:
  assumes "is_digit c"
  obtains "c = CHR ''0''" | "c = CHR ''1''" | "c = CHR ''2''" | "c = CHR ''3''" | "c = CHR ''4''"
    | "c = CHR ''5''" | "c = CHR ''6''" | "c = CHR ''7''" | "c = CHR ''8''" | "c = CHR ''9''"
  using assms by (auto simp: is_digit_def)

lemma digit_val_lt: "is_digit c \<Longrightarrow> digit_val c < 10"
  by (erule is_digit_cases) (simp_all add: digit_val_def)

lemma digit_char_numerals:
  "digit_char 0 = CHR ''0''" "digit_char 1 = CHR ''1''" "digit_char 2 = CHR ''2''"
  "digit_char 3 = CHR ''3''" "digit_char 4 = CHR ''4''" "digit_char 5 = CHR ''5''"
  "digit_char 6 = CHR ''6''" "digit_char 7 = CHR ''7''" "digit_char 8 = CHR ''8''"
  "digit_char 9 = CHR ''9''"
  by code_simp+

lemma digit_char_Suc_0: "digit_char (Suc 0) = CHR ''1''"
  using digit_char_numerals(2) by simp

lemma digit_char_val: "is_digit c \<Longrightarrow> digit_char (digit_val c) = c"
  by (erule is_digit_cases) (simp_all add: digit_val_def digit_char_numerals digit_char_Suc_0)

lemma digit_not_space: "is_digit c \<Longrightarrow> \<not> is_space c"
  by (erule is_digit_cases) (simp_all add: is_space_def)

lemma digit_char_0: "digit_char 0 = CHR ''0''"
  by (rule digit_char_numerals)

lemma show_nat_small: "n < 10 \<Longrightarrow> show_nat n = [digit_char n]"
  by (simp add: show_nat.simps)

lemma show_nat_step:
  assumes "d < 10" and "0 < q"
  shows "show_nat (10 * q + d) = show_nat q @ [digit_char d]"
proof -
  from assms have "\<not> 10 * q + d < 10" by simp
  moreover from assms have "(10 * q + d) div 10 = q" and "(10 * q + d) mod 10 = d" by simp_all
  ultimately show ?thesis by (subst show_nat.simps) simp
qed

lemma length_show_nat: "0 < length (show_nat n)"
  by (subst show_nat.simps) simp

lemma zfill_step:
  assumes "d < 10" and "0 < w"
  shows "zfill (Suc w) (show_nat (10 * q + d)) = zfill w (show_nat q) @ [digit_char d]"
proof (cases "q = 0")
  case True
  from assms(2) obtain v where w: "w = Suc v" by (cases w) simp_all
  from True assms(1) show ?thesis
    by (simp add: zfill_def show_nat_small digit_char_0 w replicate_append_same)
next
  case False
  with assms(1) have "show_nat (10 * q + d) = show_nat q @ [digit_char d]"
    by (simp add: show_nat_step)
  then show ?thesis by (simp add: zfill_def)
qed

lemma zfill_1: "d < 10 \<Longrightarrow> zfill (Suc 0) (show_nat d) = [digit_char d]"
  by (simp add: zfill_def show_nat_small)

lemma py_int_digits:
  "is_digit a \<Longrightarrow> py_int (a # cs) = foldl (\<lambda>n c. 10 * n + digit_val c) (digit_val a) cs"
  by (simp add: py_int_def digit_not_space)

lemma pad2_roundtrip:
  assumes "is_digit a" "is_digit b"
  shows "zfill 2 (show_nat (py_int [a, b])) = [a, b]"
proof -
  have "zfill (Suc (Suc 0)) (show_nat (10 * digit_val a + digit_val b))
      = zfill (Suc 0) (show_nat (digit_val a)) @ [digit_char (digit_val b)]"
    by (rule zfill_step) (simp_all add: digit_val_lt assms)
  with assms show ?thesis
    by (simp add: py_int_digits zfill_1 digit_val_lt digit_char_val numeral_2_eq_2)
qed

lemma pad4_roundtrip:
  assumes "is_digit a" "is_digit b" "is_digit c" "is_digit d"
  shows "zfill 4 (show_nat (py_int [a, b, c, d])) = [a, b, c, d]"
proof -
  let ?ab = "10 * digit_val a + digit_val b"
  let ?abc = "10 * ?ab + digit_val c"
  have 1: "zfill (Suc (Suc 0)) (show_nat ?ab)
      = zfill (Suc 0) (show_nat (digit_val a)) @ [digit_char (digit_val b)]"
    by (rule zfill_step) (simp_all add: digit_val_lt assms)
  have 2: "zfill (Suc (Suc (Suc 0))) (show_nat ?abc)
      = zfill (Suc (Suc 0)) (show_nat ?ab) @ [digit_char (digit_val c)]"
    by (rule zfill_step) (simp_all add: digit_val_lt assms)
  have 3: "zfill (Suc (Suc (Suc (Suc 0)))) (show_nat (10 * ?abc + digit_val d))
      = zfill (Suc (Suc (Suc 0))) (show_nat ?abc) @ [digit_char (digit_val d)]"
    by (rule zfill_step) (simp_all add: digit_val_lt assms)
  have "py_int [a, b, c, d] = 10 * ?abc + digit_val d"
    using assms by (simp add: py_int_digits)
  moreover have "(4::nat) = Suc (Suc (Suc (Suc 0)))" by simp
  ultimately have "zfill 4 (show_nat (py_int [a, b, c, d]))
      = zfill (Suc (Suc (Suc (Suc 0)))) (show_nat (10 * ?abc + digit_val d))"
    by (simp only:)
  also have "\<dots> = ((zfill (Suc 0) (show_nat (digit_val a)) @ [digit_char (digit_val b)])
      @ [digit_char (digit_val c)]) @ [digit_char (digit_val d)]"
    by (simp only: 1 2 3)
  also have "\<dots> = [a, b, c, d]"
    using assms by (simp add: zfill_1 digit_val_lt digit_char_val)
  finally show ?thesis .
qed

subsection \<open>The pieces of the expression on well-formed text\<close>

lemma re_ws_none: "\<not> is_space h \<Longrightarrow> re_ws (h # R) = []"
  by (simp add: re_ws_def)

lemma re_ws_one: "\<not> is_space h \<Longrightarrow> re_ws (CHR '' '' # h # R) = [('' '', h # R)]"
  by (simp add: re_ws_def is_space_def)

lemma year_match:
  assumes "is_digit y1" "is_digit y2" "is_digit y3" "is_digit y4"
  shows "then_lit re_Y CHR ''-'' (y1 # y2 # y3 # y4 # CHR ''-'' # R) = [([y1, y2, y3, y4], R)]"
  using assms by (simp add: then_lit_def re_Y_def lit_def)

lemma digit_val_chars:
  assumes "is_digit c"
  shows "digit_val c = 0 \<Longrightarrow> c = CHR ''0''"
    and "digit_val c = 1 \<Longrightarrow> c = CHR ''1''"
    and "digit_val c = 3 \<Longrightarrow> c = CHR ''3''"
    and "1 \<le> digit_val c \<Longrightarrow> is_nonzero_digit c"
    and "digit_val c \<le> 1 \<Longrightarrow> c \<in> set ''01''"
    and "digit_val c \<le> 2 \<Longrightarrow> c \<in> set ''012''"
    and "digit_val c \<le> 5 \<Longrightarrow> c \<in> set ''012345''"
    and "1 \<le> digit_val c \<Longrightarrow> digit_val c \<le> 2 \<Longrightarrow> c \<in> set ''12''"
  using assms
  by (erule_tac [!] is_digit_cases) (simp_all add: digit_val_def is_nonzero_digit_def)

lemma py_int_two:
  "is_digit a \<Longrightarrow> py_int [a, b] = 10 * digit_val a + digit_val b"
  by (simp add: py_int_digits)

lemma py_int_one: "is_digit a \<Longrightarrow> py_int [a] = digit_val a"
  by (simp add: py_int_digits)

lemma two_digit_1_to_12_shape:
  assumes "is_digit m1" "is_digit m2" "1 \<le> py_int [m1, m2]" "py_int [m1, m2] \<le> 12"
  shows "m1 = CHR ''0'' \<and> is_nonzero_digit m2 \<or> m1 = CHR ''1'' \<and> m2 \<in> set ''012''"
proof -
  from assms have v: "1 \<le> 10 * digit_val m1 + digit_val m2"
    "10 * digit_val m1 + digit_val m2 \<le> 12"
    by (simp_all add: py_int_two)
  from assms(2) have b: "digit_val m2 < 10" by (rule digit_val_lt)
  from v b consider "digit_val m1 = 0" "1 \<le> digit_val m2"
    | "digit_val m1 = 1" "digit_val m2 \<le> 2"
    by linarith
  then show ?thesis
  proof cases
    case 1
    from digit_val_chars(1) [OF assms(1) 1(1)] digit_val_chars(4) [OF assms(2) 1(2)]
    show ?thesis by simp
  next
    case 2
    from digit_val_chars(2) [OF assms(1) 2(1)] digit_val_chars(6) [OF assms(2) 2(2)]
    show ?thesis by simp
  qed
qed

lemma two_digit_1_to_12_match:
  assumes "is_digit m1" "is_digit m2" "1 \<le> py_int [m1, m2]" "py_int [m1, m2] \<le> 12"
    and "\<not> is_digit c"
  shows "then_lit re_1_to_12 c (m1 # m2 # c # R) = [([m1, m2], R)]"
  using two_digit_1_to_12_shape [OF assms(1-4)] assms(5)
  by (auto simp: then_lit_def re_1_to_12_def two_chars_def one_char_def lit_def
      is_digit_def is_nonzero_digit_def)

lemma one_digit_1_to_12_match:
  assumes "is_digit h" "1 \<le> py_int [h]" and "\<not> is_digit c"
  shows "then_lit re_1_to_12 c (h # c # R) = [([h], R)]"
proof -
  from assms(1,2) have "1 \<le> digit_val h" by (simp add: py_int_one)
  from digit_val_chars(4) [OF assms(1) this] have "is_nonzero_digit h" .
  with assms(3) show ?thesis
    by (auto simp: then_lit_def re_1_to_12_def two_chars_def one_char_def lit_def
        is_digit_def is_nonzero_digit_def)
qed

lemma day_shape:
  assumes "is_digit d1" "is_digit d2" "1 \<le> py_int [d1, d2]" "py_int [d1, d2] \<le> 31"
  shows "d1 = CHR ''0'' \<and> is_nonzero_digit d2 \<or> d1 \<in> set ''12'' \<and> is_digit d2
       \<or> d1 = CHR ''3'' \<and> d2 \<in> set ''01''"
proof -
  from assms have v: "1 \<le> 10 * digit_val d1 + digit_val d2"
    "10 * digit_val d1 + digit_val d2 \<le> 31"
    by (simp_all add: py_int_two)
  from assms(2) have b: "digit_val d2 < 10" by (rule digit_val_lt)
  from v b consider "digit_val d1 = 0" "1 \<le> digit_val d2"
    | "1 \<le> digit_val d1" "digit_val d1 \<le> 2"
    | "digit_val d1 = 3" "digit_val d2 \<le> 1"
    by linarith
  then show ?thesis
  proof cases
    case 1
    from digit_val_chars(1) [OF assms(1) 1(1)] digit_val_chars(4) [OF assms(2) 1(2)]
    show ?thesis by simp
  next
    case 2
    from digit_val_chars(8) [OF assms(1) 2] assms(2)
    show ?thesis by simp
  next
    case 3
    from digit_val_chars(3) [OF assms(1) 3(1)] digit_val_chars(5) [OF assms(2) 3(2)]
    show ?thesis by simp
  qed
qed

lemma day_match:
  assumes "is_digit d1" "is_digit d2" "1 \<le> py_int [d1, d2]" "py_int [d1, d2] \<le> 31"
    and "is_digit h"
  shows "then_ws re_d (d1 # d2 # CHR '' '' # h # R) = [([d1, d2], h # R)]"
proof -
  from assms(5) have h: "\<not> is_space h" by (rule digit_not_space)
  from assms(2) have d2: "\<not> is_space d2" by (rule digit_not_space)
  have sp: "\<not> is_digit CHR '' ''" by (simp add: is_digit_def)
  from day_shape [OF assms(1-4)] assms(2) show ?thesis
    by (auto simp: then_ws_def re_d_def two_chars_def one_char_def
        re_ws_one [OF h] re_ws_none [OF d2] is_nonzero_digit_def is_digit_def)
qed

lemma minute_shape:
  assumes "is_digit n1" "is_digit n2" "py_int [n1, n2] \<le> 59"
  shows "n1 \<in> set ''012345''"
proof -
  from assms have "10 * digit_val n1 + digit_val n2 \<le> 59" by (simp add: py_int_two)
  then have "digit_val n1 \<le> 5" by linarith
  from digit_val_chars(7) [OF assms(1) this] show ?thesis .
qed

lemma minute_match:
  assumes "is_digit n1" "is_digit n2" "py_int [n1, n2] \<le> 59" and "\<not> is_space a"
  shows "then_ws re_M (n1 # n2 # CHR '' '' # a # R) = [([n1, n2], a # R)]"
proof -
  from assms(2) have n2: "\<not> is_space n2" by (rule digit_not_space)
  from minute_shape [OF assms(1-3)] assms(1,2) show ?thesis
    by (simp add: then_ws_def re_M_def two_chars_def one_char_def
        re_ws_one [OF assms(4)] re_ws_none [OF n2])
qed

lemma ampm_match:
  assumes "a \<in> set ''aApP''" "b \<in> set ''mM''"
  shows "re_p [a, b] = [([a, b], [])]"
  using assms by (auto simp: re_p_def two_chars_def)

lemma hour_match:
  assumes "hh = [h1] \<or> hh = [h1, h2]" "list_all is_digit hh" "1 \<le> py_int hh" "py_int hh \<le> 12"
  shows "then_lit re_1_to_12 CHR '':'' (hh @ CHR '':'' # R) = [(hh, R)]"
proof -
  have c: "\<not> is_digit CHR '':''" by (simp add: is_digit_def)
  from assms(1) show ?thesis
  proof
    assume hh: "hh = [h1]"
    with assms one_digit_1_to_12_match [OF _ _ c, of h1 R] show ?thesis by simp
  next
    assume hh: "hh = [h1, h2]"
    with assms two_digit_1_to_12_match [OF _ _ _ _ c, of h1 h2 R] show ?thesis by simp
  qed
qed

lemma hour_24_lt:
  assumes "1 \<le> h" "h \<le> 12"
  shows "hour_24 h p < 24"
  using assms by (simp add: hour_24_def)

lemma two_digits: 
  assumes "n < 100"
  shows "zfill 2 (show_nat n) = [digit_char (n div 10), digit_char (n mod 10)]"
proof -
  have "zfill (Suc (Suc 0)) (show_nat (10 * (n div 10) + n mod 10))
      = zfill (Suc 0) (show_nat (n div 10)) @ [digit_char (n mod 10)]"
    by (rule zfill_step) simp_all
  moreover from assms have "n div 10 < 10" by simp
  ultimately show ?thesis by (simp add: zfill_1 numeral_2_eq_2)
qed

text \<open>The parse of a well-formed date and time.\<close>

lemma strptime_valid:
  assumes dig: "list_all is_digit [y1, y2, y3, y4, m1, m2, d1, d2]"
    and y: "1 \<le> py_int [y1, y2, y3, y4]"
    and m: "1 \<le> py_int [m1, m2]" "py_int [m1, m2] \<le> 12"
    and d: "1 \<le> py_int [d1, d2]"
      "py_int [d1, d2] \<le> days_in_month (py_int [y1, y2, y3, y4]) (py_int [m1, m2])"
    and hh: "hh = [h1] \<or> hh = [h1, h2]" "list_all is_digit hh" "1 \<le> py_int hh" "py_int hh \<le> 12"
    and mi: "is_digit n1" "is_digit n2" "py_int [n1, n2] \<le> 59"
    and ap: "a \<in> set ''aApP''" "b \<in> set ''mM''"
  shows "strptime ([y1, y2, y3, y4, CHR ''-'', m1, m2, CHR ''-'', d1, d2] @ '' ''
           @ hh @ [CHR '':'', n1, n2, CHR '' '', a, b])
       = Inr (mk_datetime (py_int [y1, y2, y3, y4]) (py_int [m1, m2]) (py_int [d1, d2])
                (hour_24 (py_int hh) [a, b]) (py_int [n1, n2]))"
proof -
  from dig have digs: "is_digit y1" "is_digit y2" "is_digit y3" "is_digit y4"
    "is_digit m1" "is_digit m2" "is_digit d1" "is_digit d2" by simp_all
  have dash: "\<not> is_digit CHR ''-''" by (simp add: is_digit_def)
  from ap(1) have a: "\<not> is_space a" by (auto simp: is_space_def)
  have "days_in_month (py_int [y1, y2, y3, y4]) (py_int [m1, m2]) \<le> 31"
    by (simp add: days_in_month_def)
  with d(2) have d31: "py_int [d1, d2] \<le> 31" by simp
  from hh(1,2) obtain hh' where hh': "hh = h1 # hh'" and h1: "is_digit h1" by auto
  let ?R4 = "[n1, n2, CHR '' '', a, b]"
  have 1: "then_lit re_Y CHR ''-'' ([y1, y2, y3, y4, CHR ''-'', m1, m2, CHR ''-'', d1, d2] @ '' ''
           @ hh @ [CHR '':'', n1, n2, CHR '' '', a, b])
      = [([y1, y2, y3, y4], m1 # m2 # CHR ''-'' # d1 # d2 # CHR '' '' # h1 # hh' @ CHR '':'' # ?R4)]"
    using year_match [OF digs(1-4)] by (simp add: hh')
  have 2: "then_lit re_1_to_12 CHR ''-''
        (m1 # m2 # CHR ''-'' # d1 # d2 # CHR '' '' # h1 # hh' @ CHR '':'' # ?R4)
      = [([m1, m2], d1 # d2 # CHR '' '' # h1 # hh' @ CHR '':'' # ?R4)]"
    by (rule two_digit_1_to_12_match [OF digs(5,6) m dash])
  have 3: "then_ws re_d (d1 # d2 # CHR '' '' # h1 # hh' @ CHR '':'' # ?R4)
      = [([d1, d2], h1 # hh' @ CHR '':'' # ?R4)]"
    by (rule day_match [OF digs(7,8) d(1) d31 h1])
  have 4: "then_lit re_1_to_12 CHR '':'' (h1 # hh' @ CHR '':'' # ?R4) = [(hh, ?R4)]"
    using hour_match [OF hh, of ?R4] by (simp add: hh')
  have 5: "then_ws re_M ?R4 = [([n1, n2], [a, b])]"
    by (rule minute_match [OF mi a])
  have 6: "re_p [a, b] = [([a, b], [])]"
    by (rule ampm_match [OF ap])
  have fm: "format_matches ([y1, y2, y3, y4, CHR ''-'', m1, m2, CHR ''-'', d1, d2] @ '' ''
           @ hh @ [CHR '':'', n1, n2, CHR '' '', a, b])
      = [(\<lparr>f_Y = [y1, y2, y3, y4], f_m = [m1, m2], f_d = [d1, d2], f_I = hh,
           f_M = [n1, n2], f_p = [a, b]\<rparr>, [])]"
    unfolding format_matches_def 1 by (simp add: 2 3 4 5 6)
  from y d(2) show ?thesis
    unfolding strptime_def fm by (simp add: Let_def)
qed

lemma show_nat_unfold:
  "10 \<le> n \<Longrightarrow> show_nat n = show_nat (n div 10) @ [digit_char (n mod 10)]"
  by (subst show_nat.simps) simp

lemma length_show_nat_1000:
  assumes "1000 \<le> n"
  shows "4 \<le> length (show_nat n)"
proof -
  from assms have a: "10 \<le> n" and b: "10 \<le> n div 10" and c: "10 \<le> n div 10 div 10"
    by simp_all
  have "length (show_nat n) = length (show_nat (n div 10 div 10 div 10)) + 3"
    by (simp add: show_nat_unfold [OF a] show_nat_unfold [OF b] show_nat_unfold [OF c])
  moreover have "1 \<le> length (show_nat (n div 10 div 10 div 10))"
    using length_show_nat [of "n div 10 div 10 div 10"] by (simp only: Suc_le_eq One_nat_def)
  ultimately show ?thesis by linarith
qed

lemma show_nat_four_digits:
  assumes "is_digit a" "is_digit b" "is_digit c" "is_digit d" "1000 \<le> py_int [a, b, c, d]"
  shows "show_nat (py_int [a, b, c, d]) = [a, b, c, d]"
proof -
  from length_show_nat_1000 [OF assms(5)]
  have "zfill 4 (show_nat (py_int [a, b, c, d])) = show_nat (py_int [a, b, c, d])"
    by (simp add: zfill_def)
  with pad4_roundtrip [OF assms(1-4)] show ?thesis by simp
qed

lemma spec_examples:
  "convert_time_to_iso str_of (JStr ''2026-06-15'') (JStr ''05:35 AM'')
     = Inr (JStr ''2026-06-15T05:35:00-07:00'')"
  "convert_time_to_iso str_of (JStr ''2026-12-01'') (JStr ''06:45 AM'')
     = Inr (JStr ''2026-12-01T06:45:00-08:00'')"
  by code_simp+

lemma offset_cases: "get_pst_offset dt = ''-07:00'' \<or> get_pst_offset dt = ''-08:00''"
  by (simp add: get_pst_offset_def)

text \<open>
  Claim C4 fails as stated for the years 0001 to 0999: the date string \<open>0999-06-15\<close>
  names a day of the calendar and parses, but the year is written back without the zero
  in front, so the result does not begin with the four digits of the year.
\<close>

theorem year_below_1000_counterexample:
  "convert_time_to_iso (\<lambda>v. []) (JStr ''0999-06-15'') (JStr ''05:35 AM'')
     = Inr (JStr ''999-06-15T05:35:00-08:00'')
   \<and> convert_time_to_iso (\<lambda>v. []) (JStr ''0999-06-15'') (JStr ''05:35 AM'')
     \<noteq> Inr (JStr ''0999-06-15T05:35:00-08:00'')"
  by code_simp

text \<open>
  Claim C4, amended. Let the date string be four digits, a hyphen, two digits, a hyphen
  and two digits that name a day of the calendar in a year from 1000 on, and the time
  string an hour \<open>h\<close> from 1 to 12 in one or two digits, a colon, a minute from 00 to 59 in
  two digits, a space and \<open>AM\<close> or \<open>PM\<close> (in either case). Then the converter returns the
  date string as it is, \<open>T\<close>, the hour \<open>H\<close> of the 24-hour clock in two digits (for AM, 0
  when \<open>h\<close> is 12 and \<open>h\<close> otherwise; for PM, 12 when \<open>h\<close> is 12 and \<open>h + 12\<close> otherwise),
  a colon, the two minute digits, \<open>:00\<close> for the seconds, and the offset the resolver gives
  for that instant, which is \<open>-07:00\<close> or \<open>-08:00\<close>. For \<open>2026-06-15\<close> with \<open>05:35 AM\<close>
  this is \<open>2026-06-15T05:35:00-07:00\<close>, and for \<open>2026-12-01\<close> with \<open>06:45 AM\<close> it is
  \<open>2026-12-01T06:45:00-08:00\<close>.
\<close>

theorem convert_valid_strings:
  assumes date: "date_str = [y1, y2, y3, y4, CHR ''-'', m1, m2, CHR ''-'', d1, d2]"
    and dig: "list_all is_digit [y1, y2, y3, y4, m1, m2, d1, d2]"
    and y: "1000 \<le> py_int [y1, y2, y3, y4]"
    and m: "1 \<le> py_int [m1, m2]" "py_int [m1, m2] \<le> 12"
    and d: "1 \<le> py_int [d1, d2]"
      "py_int [d1, d2] \<le> days_in_month (py_int [y1, y2, y3, y4]) (py_int [m1, m2])"
    and time: "time_str = hh @ [CHR '':'', n1, n2, CHR '' '', a, b]"
    and hh: "hh = [h1] \<or> hh = [h1, h2]" "list_all is_digit hh" "1 \<le> py_int hh" "py_int hh \<le> 12"
    and mi: "is_digit n1" "is_digit n2" "py_int [n1, n2] \<le> 59"
    and ap: "a \<in> set ''aApP''" "b \<in> set ''mM''"
    and H: "H = (if a \<in> set ''aA'' then (if py_int hh = 12 then 0 else py_int hh)
                 else (if py_int hh = 12 then 12 else py_int hh + 12))"
    and dt: "dt = mk_datetime (py_int [y1, y2, y3, y4]) (py_int [m1, m2]) (py_int [d1, d2]) H
                    (py_int [n1, n2])"
  shows "convert_time_to_iso str_of (JStr date_str) (JStr time_str)
           = Inr (JStr (date_str @ ''T'' @ [digit_char (H div 10), digit_char (H mod 10)]
                        @ [CHR '':'', n1, n2] @ '':00'' @ get_pst_offset dt))
       \<and> H < 24
       \<and> (get_pst_offset dt = ''-07:00'' \<or> get_pst_offset dt = ''-08:00'')
       \<and> convert_time_to_iso str_of (JStr ''2026-06-15'') (JStr ''05:35 AM'')
           = Inr (JStr ''2026-06-15T05:35:00-07:00'')
       \<and> convert_time_to_iso str_of (JStr ''2026-12-01'') (JStr ''06:45 AM'')
           = Inr (JStr ''2026-12-01T06:45:00-08:00'')"
proof -
  from dig have digs: "is_digit y1" "is_digit y2" "is_digit y3" "is_digit y4"
    "is_digit m1" "is_digit m2" "is_digit d1" "is_digit d2" by simp_all
  from y have y1: "1 \<le> py_int [y1, y2, y3, y4]" by simp
  have H': "H = hour_24 (py_int hh) [a, b]"
    unfolding H by (simp add: hour_24_def)
  have parse: "strptime (date_str @ '' '' @ time_str) = Inr dt"
    unfolding date time dt H'
    by (rule strptime_valid [OF dig y1 m d hh mi ap])
  from hh(3,4) have H24: "H < 24" unfolding H' by (rule hour_24_lt)
  then have H100: "H < 100" by simp
  have sec: "zfill 2 (show_nat 0) = ''00''"
    using two_digits [of 0] by (simp add: digit_char_0)
  have out: "strftime dt (get_pst_offset dt)
      = date_str @ ''T'' @ [digit_char (H div 10), digit_char (H mod 10)]
          @ [CHR '':'', n1, n2] @ '':00'' @ get_pst_offset dt"
    unfolding strftime_def
    by (simp add: dt mk_datetime_def date show_nat_four_digits [OF digs(1-4) y]
        pad2_roundtrip [OF digs(5,6)] pad2_roundtrip [OF digs(7,8)]
        pad2_roundtrip [OF mi(1,2)] two_digits [OF H100] sec)
  have nonempty: "py_truthy (JStr date_str)" "py_truthy (JStr time_str)"
    by (simp_all add: date time)
  have "convert_time_to_iso str_of (JStr date_str) (JStr time_str)
      = Inr (JStr (strftime dt (get_pst_offset dt)))"
    using nonempty parse by (simp add: convert_time_to_iso_def py_format_def)
  with out H24 offset_cases [of dt] spec_examples [of str_of] show ?thesis
    by (simp only:)
qed

theorem convert_valid_strings_witness:
  "convert_time_to_iso (\<lambda>v. []) (JStr ''2026-03-08'') (JStr ''2:00 am'')
     = Inr (JStr ''2026-03-08T02:00:00-07:00'')
   \<and> convert_time_to_iso (\<lambda>v. []) (JStr ''2026-06-15'') (JStr ''1:05 PM'')
     = Inr (JStr ''2026-06-15T13:05:00-07:00'')
   \<and> convert_time_to_iso (\<lambda>v. []) (JStr ''2026-12-01'') (JStr ''12:15 AM'')
     = Inr (JStr ''2026-12-01T00:15:00-08:00'')
   \<and> convert_time_to_iso (\<lambda>v. []) (JStr ''2026-11-01'') (JStr ''12:30 pm'')
     = Inr (JStr ''2026-11-01T12:30:00-08:00'')"
proof -
  have ints: "py_int ''2026'' = 2026" "py_int ''03'' = 3" "py_int ''08'' = 8"
    "py_int ''2'' = 2" "py_int ''00'' = 0" "py_int ''06'' = 6" "py_int ''15'' = 15"
    "py_int ''1'' = 1" "py_int ''05'' = 5" "py_int ''12'' = 12" "py_int ''01'' = 1"
    "py_int ''11'' = 11" "py_int ''30'' = 30"
    by (simp_all add: py_int_def digit_val_def is_space_def)
  have off1: "get_pst_offset (mk_datetime 2026 3 8 2 0) = ''-07:00''"
    by (simp add: get_pst_offset_def dt_le_def dt_lt_def dt_fields_def DST_START_2026_def
        DST_END_2026_def mk_datetime_def)
  have dim1: "days_in_month 2026 3 = 31" by (simp add: days_in_month_def)
  have T1: "convert_time_to_iso (\<lambda>v. []) (JStr ''2026-03-08'') (JStr ''2:00 am'')
      = Inr (JStr (''2026-03-08'' @ ''T'' @ [digit_char (2 div 10), digit_char (2 mod 10)]
            @ [CHR '':'', CHR ''0'', CHR ''0''] @ '':00''
            @ get_pst_offset (mk_datetime 2026 3 8 2 0)))"
    by (rule convert_valid_strings [where str_of = "\<lambda>v. []" and date_str = "''2026-03-08''"
          and ?y1.0 = "CHR ''2''" and ?y2.0 = "CHR ''0''" and ?y3.0 = "CHR ''2''"
          and ?y4.0 = "CHR ''6''" and ?m1.0 = "CHR ''0''" and ?m2.0 = "CHR ''3''"
          and ?d1.0 = "CHR ''0''" and ?d2.0 = "CHR ''8''" and time_str = "''2:00 am''"
          and hh = "''2''" and ?h1.0 = "CHR ''2''" and ?h2.0 = "CHR ''0''"
          and ?n1.0 = "CHR ''0''" and ?n2.0 = "CHR ''0''" and a = "CHR ''a''" and b = "CHR ''m''"
          and H = 2 and dt = "mk_datetime 2026 3 8 2 0", THEN conjunct1])
      (simp_all add: ints dim1 is_digit_def)
  have R1: "convert_time_to_iso (\<lambda>v. []) (JStr ''2026-03-08'') (JStr ''2:00 am'')
      = Inr (JStr ''2026-03-08T02:00:00-07:00'')"
    unfolding T1 off1 by (simp add: digit_char_numerals digit_char_Suc_0)
  have off2: "get_pst_offset (mk_datetime 2026 6 15 13 5) = ''-07:00''"
    by (simp add: get_pst_offset_def dt_le_def dt_lt_def dt_fields_def DST_START_2026_def
        DST_END_2026_def mk_datetime_def)
  have dim2: "days_in_month 2026 6 = 30" by (simp add: days_in_month_def)
  have T2: "convert_time_to_iso (\<lambda>v. []) (JStr ''2026-06-15'') (JStr ''1:05 PM'')
      = Inr (JStr (''2026-06-15'' @ ''T'' @ [digit_char (13 div 10), digit_char (13 mod 10)]
            @ [CHR '':'', CHR ''0'', CHR ''5''] @ '':00''
            @ get_pst_offset (mk_datetime 2026 6 15 13 5)))"
    by (rule convert_valid_strings [where str_of = "\<lambda>v. []" and date_str = "''2026-06-15''"
          and ?y1.0 = "CHR ''2''" and ?y2.0 = "CHR ''0''" and ?y3.0 = "CHR ''2''"
          and ?y4.0 = "CHR ''6''" and ?m1.0 = "CHR ''0''" and ?m2.0 = "CHR ''6''"
          and ?d1.0 = "CHR ''1''" and ?d2.0 = "CHR ''5''" and time_str = "''1:05 PM''"
          and hh = "''1''" and ?h1.0 = "CHR ''1''" and ?h2.0 = "CHR ''0''"
          and ?n1.0 = "CHR ''0''" and ?n2.0 = "CHR ''5''" and a = "CHR ''P''" and b = "CHR ''M''"
          and H = 13 and dt = "mk_datetime 2026 6 15 13 5", THEN conjunct1])
      (simp_all add: ints dim2 is_digit_def)
  have R2: "convert_time_to_iso (\<lambda>v. []) (JStr ''2026-06-15'') (JStr ''1:05 PM'')
      = Inr (JStr ''2026-06-15T13:05:00-07:00'')"
    unfolding T2 off2 by (simp add: digit_char_numerals digit_char_Suc_0)
  have off3: "get_pst_offset (mk_datetime 2026 12 1 0 15) = ''-08:00''"
    by (simp add: get_pst_offset_def dt_le_def dt_lt_def dt_fields_def DST_START_2026_def
        DST_END_2026_def mk_datetime_def)
  have dim3: "days_in_month 2026 12 = 31" by (simp add: days_in_month_def)
  have T3: "convert_time_to_iso (\<lambda>v. []) (JStr ''2026-12-01'') (JStr ''12:15 AM'')
      = Inr (JStr (''2026-12-01'' @ ''T'' @ [digit_char (0 div 10), digit_char (0 mod 10)]
            @ [CHR '':'', CHR ''1'', CHR ''5''] @ '':00''
            @ get_pst_offset (mk_datetime 2026 12 1 0 15)))"
    by (rule convert_valid_strings [where str_of = "\<lambda>v. []" and date_str = "''2026-12-01''"
          and ?y1.0 = "CHR ''2''" and ?y2.0 = "CHR ''0''" and ?y3.0 = "CHR ''2''"
          and ?y4.0 = "CHR ''6''" and ?m1.0 = "CHR ''1''" and ?m2.0 = "CHR ''2''"
          and ?d1.0 = "CHR ''0''" and ?d2.0 = "CHR ''1''" and time_str = "''12:15 AM''"
          and hh = "''12''" and ?h1.0 = "CHR ''1''" and ?h2.0 = "CHR ''2''"
          and ?n1.0 = "CHR ''1''" and ?n2.0 = "CHR ''5''" and a = "CHR ''A''" and b = "CHR ''M''"
          and H = 0 and dt = "mk_datetime 2026 12 1 0 15", THEN conjunct1])
      (simp_all add: ints dim3 is_digit_def)
  have R3: "convert_time_to_iso (\<lambda>v. []) (JStr ''2026-12-01'') (JStr ''12:15 AM'')
      = Inr (JStr ''2026-12-01T00:15:00-08:00'')"
    unfolding T3 off3 by (simp add: digit_char_numerals digit_char_Suc_0)
  have off4: "get_pst_offset (mk_datetime 2026 11 1 12 30) = ''-08:00''"
    by (simp add: get_pst_offset_def dt_le_def dt_lt_def dt_fields_def DST_START_2026_def
        DST_END_2026_def mk_datetime_def)
  have dim4: "days_in_month 2026 11 = 30" by (simp add: days_in_month_def)
  have T4: "convert_time_to_iso (\<lambda>v. []) (JStr ''2026-11-01'') (JStr ''12:30 pm'')
      = Inr (JStr (''2026-11-01'' @ ''T'' @ [digit_char (12 div 10), digit_char (12 mod 10)]
            @ [CHR '':'', CHR ''3'', CHR ''0''] @ '':00''
            @ get_pst_offset (mk_datetime 2026 11 1 12 30)))"
    by (rule convert_valid_strings [where str_of = "\<lambda>v. []" and date_str = "''2026-11-01''"
          and ?y1.0 = "CHR ''2''" and ?y2.0 = "CHR ''0''" and ?y3.0 = "CHR ''2''"
          and ?y4.0 = "CHR ''6''" and ?m1.0 = "CHR ''1''" and ?m2.0 = "CHR ''1''"
          and ?d1.0 = "CHR ''0''" and ?d2.0 = "CHR ''1''" and time_str = "''12:30 pm''"
          and hh = "''12''" and ?h1.0 = "CHR ''1''" and ?h2.0 = "CHR ''2''"
          and ?n1.0 = "CHR ''3''" and ?n2.0 = "CHR ''0''" and a = "CHR ''p''" and b = "CHR ''m''"
          and H = 12 and dt = "mk_datetime 2026 11 1 12 30", THEN conjunct1])
      (simp_all add: ints dim4 is_digit_def)
  have R4: "convert_time_to_iso (\<lambda>v. []) (JStr ''2026-11-01'') (JStr ''12:30 pm'')
      = Inr (JStr ''2026-11-01T12:30:00-08:00'')"
    unfolding T4 off4 by (simp add: digit_char_numerals digit_char_Suc_0)
  from R1 R2 R3 R4 show ?thesis by (intro conjI)
qed

end
